theory Spec2Isabelle
  imports Complex_Main "HOL-Library.Sublist"
begin

section \<open>The document, as the script sees it\<close>

text \<open>
  The script \<^verbatim>\<open>js/main.js\<close> never creates or removes an element, so an element is
  identified by its position in document order. An element carries what the script reads
  or writes: its tag name (in lower case), its attributes, the tokens of its class list,
  its inline style properties, and the read-only properties \<^verbatim>\<open>complete\<close>, \<^verbatim>\<open>src\<close>,
  \<^verbatim>\<open>offsetTop\<close> and \<^verbatim>\<open>offsetHeight\<close>. The field \<open>ndesc\<close> is the number of descendants of the
  element: they are the next \<open>ndesc\<close> elements in document order. An element that is not
  an image has no \<^verbatim>\<open>complete\<close> property; the script reads it as false then, and so the
  field is \<open>False\<close> for it.

  The two style values the script writes are the template strings \<^verbatim>\<open>`${x}s`\<close> and
  \<^verbatim>\<open>`${x}px`\<close> of a number \<open>x\<close>. The text of a number is the shortest decimal that reads
  back as the same double, so it names the double and nothing else; the value is kept as
  that double.

  The registration of the service worker at the end of the file touches nothing the
  functions of the script read and is left out.
\<close>

datatype css_value = Seconds rat | Px rat

record element =
  tag :: string
  attrs :: "string \<rightharpoonup> string"
  classes :: "string list"
  style :: "string \<rightharpoonup> css_value"
  ndesc :: nat
  complete :: bool
  src :: string
  offsetTop :: int
  offsetHeight :: int

definition hasAttribute :: "string \<Rightarrow> element \<Rightarrow> bool" where
  "hasAttribute a e = (attrs e a \<noteq> None)"

definition getAttribute :: "string \<Rightarrow> element \<Rightarrow> string option" where
  "getAttribute a e = attrs e a"

definition setAttribute :: "string \<Rightarrow> string \<Rightarrow> element \<Rightarrow> element" where
  "setAttribute a v e = e\<lparr>attrs := (attrs e)(a \<mapsto> v)\<rparr>"

text \<open>\<^verbatim>\<open>classList.add\<close> and \<^verbatim>\<open>classList.remove\<close>: the class list is a set of tokens kept in order.\<close>

definition classList_add :: "string \<Rightarrow> element \<Rightarrow> element" where
  "classList_add c e = (if c \<in> set (classes e) then e else e\<lparr>classes := classes e @ [c]\<rparr>)"

definition classList_remove :: "string \<Rightarrow> element \<Rightarrow> element" where
  "classList_remove c e = e\<lparr>classes := filter (\<lambda>d. d \<noteq> c) (classes e)\<rparr>"

subsection \<open>The selectors the script uses\<close>

datatype selector =
    HasAttr string
  | HasClass string
  | TagAttrPrefix string string string
  | TagAttrEq string string string

fun matches :: "selector \<Rightarrow> element \<Rightarrow> bool" where
  "matches (HasAttr a) e = hasAttribute a e"
| "matches (HasClass c) e = (c \<in> set (classes e))"
| "matches (TagAttrPrefix t a v) e =
     (tag e = t \<and> (case attrs e a of None \<Rightarrow> False | Some w \<Rightarrow> prefix v w))"
| "matches (TagAttrEq t a v) e = (tag e = t \<and> attrs e a = Some v)"

text \<open>\<^verbatim>\<open>querySelectorAll\<close> returns a static list, in document order.\<close>

definition querySelectorAll :: "selector \<Rightarrow> element list \<Rightarrow> nat list" where
  "querySelectorAll sel es = filter (\<lambda>i. matches sel (es ! i)) [0..<length es]"

text \<open>\<^verbatim>\<open>list.forEach(x => ...)\<close> where the body changes the visited element only.\<close>

definition forEach_element :: "nat list \<Rightarrow> (element \<Rightarrow> element) \<Rightarrow> element list \<Rightarrow> element list" where
  "forEach_element idxs f es = fold (\<lambda>i acc. acc[i := f (acc ! i)]) idxs es"

subsection \<open>Strings\<close>

text \<open>\<^verbatim>\<open>String.prototype.indexOf\<close>: the first position of the pattern, or \<open>-1\<close>.\<close>

fun indexOf_from :: "nat \<Rightarrow> string \<Rightarrow> string \<Rightarrow> int" where
  "indexOf_from k pat [] = (if pat = [] then int k else - 1)"
| "indexOf_from k pat (c # cs) =
     (if prefix pat (c # cs) then int k else indexOf_from (Suc k) pat cs)"

definition indexOf :: "string \<Rightarrow> string \<Rightarrow> int" where
  "indexOf s pat = indexOf_from 0 pat s"

text \<open>
  The value of a \<^verbatim>\<open>rel\<close> attribute is a set of tokens separated by ASCII whitespace
  (space, tab, line feed, form feed, carriage return).
\<close>

definition is_space :: "char \<Rightarrow> bool" where
  "is_space c = (c \<in> {CHR 0x20, CHR 0x09, CHR 0x0A, CHR 0x0C, CHR 0x0D})"

fun tokens_from :: "string \<Rightarrow> string \<Rightarrow> string list" where
  "tokens_from cur [] = (if cur = [] then [] else [cur])"
| "tokens_from cur (c # cs) =
     (if is_space c then (if cur = [] then tokens_from [] cs else cur # tokens_from [] cs)
      else tokens_from (cur @ [c]) cs)"

definition rel_tokens :: "string \<Rightarrow> string list" where
  "rel_tokens s = tokens_from [] s"


subsection \<open>Numbers\<close>

text \<open>
  A JavaScript number is an IEEE 754 double. The script multiplies a small non-negative
  integer (an index of a node list, the inner height of the window) by the literal \<^verbatim>\<open>0.1\<close>
  or \<^verbatim>\<open>0.01\<close>. The literal denotes the double nearest to it, \<open>m / 2 ^ k\<close> with a
  significand \<open>m\<close> of 53 bits; the product of the integer \<open>i\<close> and that double is the
  exact product \<open>i * m / 2 ^ k\<close> rounded to 53 significant bits, ties to the even
  significand. (Integers below \<open>2 ^ 53\<close> are doubles themselves, and no product here
  leaves the range of normal doubles.) A double is kept as the rational it denotes.
\<close>

fun bitlen :: "nat \<Rightarrow> nat" where
  "bitlen n = (if n = 0 then 0 else Suc (bitlen (n div 2)))"

definition round_to_53 :: "nat \<Rightarrow> nat" where
  "round_to_53 n =
     (if bitlen n \<le> 53 then n
      else
        let s = bitlen n - 53; q = n div 2 ^ s; r = n mod 2 ^ s; half = 2 ^ (s - 1)
        in (if half < r \<or> (r = half \<and> odd q) then q + 1 else q) * 2 ^ s)"

definition double_product :: "nat \<Rightarrow> nat \<Rightarrow> nat \<Rightarrow> rat" where
  "double_product i m k = of_nat (round_to_53 (i * m)) / 2 ^ k"

text \<open>\<^verbatim>\<open>i * 0.1\<close> and \<^verbatim>\<open>h * 0.01\<close>.\<close>

definition times_0_1 :: "nat \<Rightarrow> rat" where
  "times_0_1 i = double_product i 7205759403792794 56"

definition times_0_01 :: "nat \<Rightarrow> rat" where
  "times_0_01 h = double_product h 5764607523034235 59"

section \<open>The page: document, listeners, timers, host\<close>

datatype js_error = TypeError | SyntaxError

datatype target = Elem nat | Window | Document | MediaQuery

datatype event_type =
  Click | Load | ErrorEv | MouseEnter | Change | KeyDown | MouseDown
  | Resize | OrientationChange | DOMContentLoaded

text \<open>The functions the script registers as listeners, each with what its closure holds.\<close>

datatype callback =
    SmoothScrollClick
  | ImageLoaded
  | ImageFailed
  | PreloadGif nat
  | MotionChanged
  | TabPressed
  | PointerDown
  | ResizeDebounce
  | OrientationDelay
  | LogPageLoad
  | Init

record listener =
  l_target :: target
  l_type :: event_type
  l_callback :: callback
  l_once :: bool

datatype timer_callback = ResizeTimeout | SetVhDirect

record timer =
  t_id :: nat
  t_due :: nat
  t_callback :: timer_callback

text \<open>
  What the script asks of the host beyond changing elements, in the order it happens,
  each with the time on the clock: \<^verbatim>\<open>e.preventDefault()\<close>, \<^verbatim>\<open>window.scrollTo\<close>,
  \<^verbatim>\<open>console.warn\<close>, \<^verbatim>\<open>console.log\<close>, an assignment to \<^verbatim>\<open>img.src\<close> (which starts a fetch),
  a run of \<^verbatim>\<open>setVhProperty\<close> with the inner height it read, and an exception that leaves
  a callback.
\<close>

datatype effect =
    PreventDefault
  | ScrollTo int string
  | ConsoleWarn string
  | ConsoleLog int
  | SrcAssigned nat string
  | VhComputed nat
  | Uncaught js_error

text \<open>
  The page is the document and what the host keeps around it: the listeners in the order
  of their registration, the targets the intersection observer observes (none before the
  observer exists), whether the host has \<^verbatim>\<open>IntersectionObserver\<close> and \<^verbatim>\<open>performance\<close>, what
  the media query \<^verbatim>\<open>(prefers-reduced-motion: reduce)\<close> matches, \<^verbatim>\<open>window.innerHeight\<close>,
  \<^verbatim>\<open>document.readyState\<close>, the host name, \<^verbatim>\<open>loadEventEnd - navigationStart\<close>, the selector
  engine for the selectors the model does not read itself, the clock, the pending timers,
  the variable \<^verbatim>\<open>resizeTimer\<close> of \<^verbatim>\<open>init\<close>, and the effects so far. When an entry of the
  observer intersects is the host's decision (its threshold and margin are options of the
  observer), so it comes with the entry.
\<close>

record page =
  elements :: "element list"
  listeners :: "listener list"
  observer :: "nat list option"
  hasIntersectionObserver :: bool
  reducedMotion :: bool
  innerHeight :: nat
  readyState :: string
  hostname :: string
  hasPerformance :: bool
  pageLoadTime :: int
  selectorEngine :: "string \<Rightarrow> element list \<Rightarrow> js_error + nat option"
  clock :: nat
  timerSeq :: nat
  timers :: "timer list"
  resizeTimer :: "nat option"
  effects :: "(nat \<times> effect) list"

definition emit :: "effect \<Rightarrow> page \<Rightarrow> page" where
  "emit x p = p\<lparr>effects := effects p @ [(clock p, x)]\<rparr>"

definition addEventListener :: "target \<Rightarrow> event_type \<Rightarrow> callback \<Rightarrow> bool \<Rightarrow> page \<Rightarrow> page" where
  "addEventListener tg ty cb once p =
     p\<lparr>listeners := listeners p @ [\<lparr>l_target = tg, l_type = ty, l_callback = cb, l_once = once\<rparr>]\<rparr>"

definition update_element :: "nat \<Rightarrow> (element \<Rightarrow> element) \<Rightarrow> page \<Rightarrow> page" where
  "update_element i f p = p\<lparr>elements := (elements p)[i := f (elements p ! i)]\<rparr>"

text \<open>\<^verbatim>\<open>querySelector\<close>: the first match in document order, or null.\<close>

definition querySelector :: "selector \<Rightarrow> element list \<Rightarrow> nat option" where
  "querySelector sel es = (case querySelectorAll sel es of [] \<Rightarrow> None | i # _ \<Rightarrow> Some i)"

text \<open>\<^verbatim>\<open>link.querySelector\<close>: the first match among the descendants of the element.\<close>

definition querySelector_within :: "nat \<Rightarrow> selector \<Rightarrow> element list \<Rightarrow> nat option" where
  "querySelector_within i sel es =
     (case filter (\<lambda>j. j < length es \<and> matches sel (es ! j)) [Suc i..<Suc i + ndesc (es ! i)] of
        [] \<Rightarrow> None | j # _ \<Rightarrow> Some j)"

text \<open>\<^verbatim>\<open>document.body\<close> and \<^verbatim>\<open>document.documentElement\<close>, null when the document has none.\<close>

definition document_body :: "element list \<Rightarrow> nat option" where
  "document_body es =
     (case filter (\<lambda>i. tag (es ! i) = ''body'') [0..<length es] of [] \<Rightarrow> None | i # _ \<Rightarrow> Some i)"

definition documentElement :: "element list \<Rightarrow> nat option" where
  "documentElement es = (if es = [] then None else Some 0)"

section \<open>The functions of the script\<close>

subsection \<open>Scroll animations\<close>

text \<open>
  \<^verbatim>\<open>
  function initScrollAnimations() {
      if (!('IntersectionObserver' in window)) {
          document.querySelectorAll('[data-animate]').forEach(element => {
              element.classList.add('animate-in');
          });
          return;
      }
      const observer = new IntersectionObserver((entries) => {
          entries.forEach(entry => {
              if (entry.isIntersecting) {
                  entry.target.classList.add('animate-in');
                  observer.unobserve(entry.target);
              }
          });
      }, observerOptions);
      document.querySelectorAll('[data-animate]').forEach(element => {
          observer.observe(element);
      });
  }
  \<close>
\<close>

definition observe :: "nat \<Rightarrow> nat list \<Rightarrow> nat list" where
  "observe i obs = (if i \<in> set obs then obs else obs @ [i])"

definition initScrollAnimations :: "page \<Rightarrow> page" where
  "initScrollAnimations p =
     (if \<not> hasIntersectionObserver p then
        p\<lparr>elements := forEach_element (querySelectorAll (HasAttr ''data-animate'') (elements p))
                         (classList_add ''animate-in'') (elements p)\<rparr>
      else
        p\<lparr>observer := Some (fold observe (querySelectorAll (HasAttr ''data-animate'') (elements p)) [])\<rparr>)"

text \<open>The observer's callback, on one entry: the target and whether it intersects.\<close>

definition observer_entry :: "nat \<times> bool \<Rightarrow> page \<Rightarrow> page" where
  "observer_entry entry p =
     (case entry of (t, isIntersecting) \<Rightarrow>
        if isIntersecting then
          (update_element t (classList_add ''animate-in'') p)
            \<lparr>observer := map_option (filter (\<lambda>j. j \<noteq> t)) (observer p)\<rparr>
        else p)"

definition observer_callback :: "(nat \<times> bool) list \<Rightarrow> page \<Rightarrow> page" where
  "observer_callback entries p = fold observer_entry entries p"

subsection \<open>Stagger delays\<close>

text \<open>
  \<^verbatim>\<open>
  function addStaggerDelay() {
      const cards = document.querySelectorAll('.project-card');
      cards.forEach((card, index) => {
          card.style.transitionDelay = `${index * 0.1}s`;
      });
  }
  \<close>
\<close>

definition set_transitionDelay :: "nat \<Rightarrow> element \<Rightarrow> element" where
  "set_transitionDelay index el =
     el\<lparr>style := (style el)(''transitionDelay'' \<mapsto> Seconds (times_0_1 index))\<rparr>"

definition addStaggerDelay :: "page \<Rightarrow> page" where
  "addStaggerDelay p =
     (let cards = querySelectorAll (HasClass ''project-card'') (elements p)
      in p\<lparr>elements := fold (\<lambda>(index, el) es. es[el := set_transitionDelay index (es ! el)])
                            (enumerate 0 cards) (elements p)\<rparr>)"

subsection \<open>Smooth scroll for internal links\<close>

text \<open>
  \<^verbatim>\<open>
  function initSmoothScroll() {
      document.querySelectorAll('a[href^="#"]').forEach(anchor => {
          anchor.addEventListener('click', function(e) {
              const href = this.getAttribute('href');
              if (href === '#' || href === '') return;
              e.preventDefault();
              const target = document.querySelector(href);
              if (target) {
                  const headerHeight = document.querySelector('.header')?.offsetHeight || 0;
                  const targetPosition = target.offsetTop - headerHeight;
                  window.scrollTo({ top: targetPosition, behavior: 'smooth' });
              }
          });
      });
  }
  \<close>
  \<^verbatim>\<open>document.querySelector(href)\<close> reads the attribute value as a CSS selector. Where the
  value is \<^verbatim>\<open>#\<close> followed by a plain CSS identifier (ASCII letters, digits, \<^verbatim>\<open>_\<close> and
  \<^verbatim>\<open>-\<close>, not starting with a digit or with a hyphen and a digit), it is an ID selector:
  the first element whose \<^verbatim>\<open>id\<close> is that identifier (ids compared as they are written, as
  in every document that is not in quirks mode). Every other string is left to the
  host's selector engine, a parameter of the page, which answers with an element, with
  null, or throws a \<^verbatim>\<open>SyntaxError\<close>. The property \<^verbatim>\<open>src\<close> of an image is read as the
  resolved address, and an assignment to it is recorded as an effect, since it starts a
  fetch.
\<close>

definition is_name_start :: "char \<Rightarrow> bool" where
  "is_name_start c = (c \<in> set ''abcdefghijklmnopqrstuvwxyzABCDEFGHIJKLMNOPQRSTUVWXYZ_'')"

definition is_name_char :: "char \<Rightarrow> bool" where
  "is_name_char c = (is_name_start c \<or> c \<in> set ''0123456789-'')"

definition css_ident :: "string \<Rightarrow> bool" where
  "css_ident s =
     (case s of
        [] \<Rightarrow> False
      | c # cs \<Rightarrow>
          list_all is_name_char s \<and>
          (is_name_start c \<or>
           (c = CHR ''-'' \<and> (case cs of [] \<Rightarrow> False | d # _ \<Rightarrow> is_name_start d \<or> d = CHR ''-''))))"

definition querySelector_string :: "string \<Rightarrow> page \<Rightarrow> js_error + nat option" where
  "querySelector_string sel p =
     (case sel of
        c # ident \<Rightarrow>
          if c = CHR ''#'' \<and> css_ident ident
          then Inr (case filter (\<lambda>i. attrs (elements p ! i) ''id'' = Some ident) [0..<length (elements p)] of
                      [] \<Rightarrow> None | i # _ \<Rightarrow> Some i)
          else selectorEngine p sel (elements p)
      | [] \<Rightarrow> selectorEngine p sel (elements p))"

definition initSmoothScroll :: "page \<Rightarrow> page" where
  "initSmoothScroll p =
     fold (\<lambda>anchor. addEventListener (Elem anchor) Click SmoothScrollClick False)
       (querySelectorAll (TagAttrPrefix ''a'' ''href'' ''#'') (elements p)) p"

text \<open>The click listener; \<open>anchor\<close> is \<^verbatim>\<open>this\<close>.\<close>

definition smoothScroll_click :: "nat \<Rightarrow> page \<Rightarrow> page" where
  "smoothScroll_click anchor p =
     (let href = getAttribute ''href'' (elements p ! anchor) in
      if href = Some ''#'' \<or> href = Some '''' then p
      else
        let p1 = emit PreventDefault p in
        case querySelector_string (case href of None \<Rightarrow> ''null'' | Some h \<Rightarrow> h) p1 of
          Inl err \<Rightarrow> emit (Uncaught err) p1
        | Inr None \<Rightarrow> p1
        | Inr (Some target) \<Rightarrow>
            let headerHeight =
                  (case querySelector (HasClass ''header'') (elements p1) of
                     None \<Rightarrow> 0
                   | Some h \<Rightarrow> if offsetHeight (elements p1 ! h) = 0 then 0
                               else offsetHeight (elements p1 ! h));
                targetPosition = offsetTop (elements p1 ! target) - headerHeight
            in emit (ScrollTo targetPosition ''smooth'') p1)"

subsection \<open>Image loading\<close>

text \<open>
  \<^verbatim>\<open>
  function optimizeImageLoading() {
      const images = document.querySelectorAll('.project-image');
      images.forEach(img => {
          if (img.complete) {
              img.classList.add('loaded');
          } else {
              img.addEventListener('load', function() {
                  this.classList.add('loaded');
              });
              img.addEventListener('error', function() {
                  console.warn('Image failed to load:', this.src);
                  this.classList.add('error');
              });
          }
      });
  }
  \<close>
\<close>

definition optimize_image :: "nat \<Rightarrow> page \<Rightarrow> page" where
  "optimize_image img p =
     (if complete (elements p ! img) then update_element img (classList_add ''loaded'') p
      else addEventListener (Elem img) ErrorEv ImageFailed False
             (addEventListener (Elem img) Load ImageLoaded False p))"

definition optimizeImageLoading :: "page \<Rightarrow> page" where
  "optimizeImageLoading p =
     fold optimize_image (querySelectorAll (HasClass ''project-image'') (elements p)) p"

definition image_loaded :: "nat \<Rightarrow> page \<Rightarrow> page" where
  "image_loaded img p = update_element img (classList_add ''loaded'') p"

definition image_failed :: "nat \<Rightarrow> page \<Rightarrow> page" where
  "image_failed img p =
     update_element img (classList_add ''error'') (emit (ConsoleWarn (src (elements p ! img))) p)"

subsection \<open>Preloading animated images on hover\<close>

text \<open>
  \<^verbatim>\<open>
  function initGifPreloading() {
      const projectLinks = document.querySelectorAll('.project-link');
      projectLinks.forEach(link => {
          const animatedImage = link.querySelector('.project-image-animated');
          if (animatedImage) {
              link.addEventListener('mouseenter', function() {
                  if (!animatedImage.complete) {
                      const src = animatedImage.src;
                      animatedImage.src = '';
                      animatedImage.src = src;
                  }
              }, { once: true });
          }
      });
  }
  \<close>
\<close>

definition preload_link :: "nat \<Rightarrow> page \<Rightarrow> page" where
  "preload_link link p =
     (case querySelector_within link (HasClass ''project-image-animated'') (elements p) of
        None \<Rightarrow> p
      | Some animatedImage \<Rightarrow> addEventListener (Elem link) MouseEnter (PreloadGif animatedImage) True p)"

definition initGifPreloading :: "page \<Rightarrow> page" where
  "initGifPreloading p =
     fold preload_link (querySelectorAll (HasClass ''project-link'') (elements p)) p"

definition assign_src :: "nat \<Rightarrow> string \<Rightarrow> page \<Rightarrow> page" where
  "assign_src img v p = emit (SrcAssigned img v) (update_element img (\<lambda>e. e\<lparr>src := v\<rparr>) p)"

definition preload_gif :: "nat \<Rightarrow> page \<Rightarrow> page" where
  "preload_gif animatedImage p =
     (if \<not> complete (elements p ! animatedImage) then
        let s = src (elements p ! animatedImage)
        in assign_src animatedImage s (assign_src animatedImage '''' p)
      else p)"

subsection \<open>Reduced motion\<close>

text \<open>
  \<^verbatim>\<open>
  function checkReducedMotion() {
      const prefersReducedMotion = window.matchMedia('(prefers-reduced-motion: reduce)');
      if (prefersReducedMotion.matches) {
          document.body.classList.add('reduce-motion');
          document.querySelectorAll('[data-animate]').forEach(element => {
              element.classList.add('animate-in');
          });
      }
      prefersReducedMotion.addEventListener('change', () => {
          if (prefersReducedMotion.matches) {
              document.body.classList.add('reduce-motion');
          } else {
              document.body.classList.remove('reduce-motion');
          }
      });
  }
  \<close>
  A function that can throw returns the exception, if any, beside the page as it left it.
\<close>

definition checkReducedMotion :: "page \<Rightarrow> js_error option \<times> page" where
  "checkReducedMotion p =
     (if reducedMotion p then
        (case document_body (elements p) of
           None \<Rightarrow> (Some TypeError, p)
         | Some b \<Rightarrow>
             let p1 = update_element b (classList_add ''reduce-motion'') p;
                 p2 = p1\<lparr>elements :=
                        forEach_element (querySelectorAll (HasAttr ''data-animate'') (elements p1))
                          (classList_add ''animate-in'') (elements p1)\<rparr>
             in (None, addEventListener MediaQuery Change MotionChanged False p2))
      else (None, addEventListener MediaQuery Change MotionChanged False p))"

definition motion_changed :: "page \<Rightarrow> js_error option \<times> page" where
  "motion_changed p =
     (case document_body (elements p) of
        None \<Rightarrow> (Some TypeError, p)
      | Some b \<Rightarrow>
          if reducedMotion p then (None, update_element b (classList_add ''reduce-motion'') p)
          else (None, update_element b (classList_remove ''reduce-motion'') p))"

subsection \<open>Performance log\<close>

text \<open>
  \<^verbatim>\<open>
  function logPerformance() {
      if ('performance' in window) {
          window.addEventListener('load', () => {
              const perfData = window.performance.timing;
              const pageLoadTime = perfData.loadEventEnd - perfData.navigationStart;
              console.log(`Page load time: ${pageLoadTime}ms`);
          });
      }
  }
  \<close>
\<close>

definition logPerformance :: "page \<Rightarrow> page" where
  "logPerformance p =
     (if hasPerformance p then addEventListener Window Load LogPageLoad False p else p)"

definition log_page_load :: "page \<Rightarrow> page" where
  "log_page_load p = emit (ConsoleLog (pageLoadTime p)) p"

subsection \<open>External link hardening\<close>

text \<open>
  \<^verbatim>\<open>
  function secureExternalLinks() {
      const externalLinks = document.querySelectorAll('a[target="_blank"]');
      externalLinks.forEach(link => {
          if (!link.hasAttribute('rel') || link.getAttribute('rel').indexOf('noopener') === -1) {
              const currentRel = link.getAttribute('rel') || '';
              link.setAttribute('rel', currentRel + ' noopener noreferrer');
          }
      });
  }
  \<close>
\<close>

definition secure_link :: "element \<Rightarrow> element" where
  "secure_link link =
     (if \<not> hasAttribute ''rel'' link
         \<or> (case getAttribute ''rel'' link of None \<Rightarrow> False
             | Some r \<Rightarrow> indexOf r ''noopener'' = - 1)
      then
        let currentRel = (case getAttribute ''rel'' link of
                            None \<Rightarrow> ''''
                          | Some r \<Rightarrow> if r = '''' then '''' else r)
        in setAttribute ''rel'' (currentRel @ '' noopener noreferrer'') link
      else link)"

definition secureExternalLinks :: "page \<Rightarrow> page" where
  "secureExternalLinks p =
     p\<lparr>elements := forEach_element (querySelectorAll (TagAttrEq ''a'' ''target'' ''_blank'') (elements p))
                      secure_link (elements p)\<rparr>"

subsection \<open>Keyboard navigation\<close>

text \<open>
  \<^verbatim>\<open>
  function enhanceKeyboardNavigation() {
      document.body.addEventListener('keydown', (e) => {
          if (e.key === 'Tab') {
              document.body.classList.add('using-keyboard');
          }
      });
      document.body.addEventListener('mousedown', () => {
          document.body.classList.remove('using-keyboard');
      });
  }
  \<close>
\<close>

definition enhanceKeyboardNavigation :: "page \<Rightarrow> js_error option \<times> page" where
  "enhanceKeyboardNavigation p =
     (case document_body (elements p) of
        None \<Rightarrow> (Some TypeError, p)
      | Some b \<Rightarrow>
          (None, addEventListener (Elem b) MouseDown PointerDown False
                   (addEventListener (Elem b) KeyDown TabPressed False p)))"

definition tab_pressed :: "string \<Rightarrow> page \<Rightarrow> js_error option \<times> page" where
  "tab_pressed key p =
     (if key = ''Tab'' then
        (case document_body (elements p) of
           None \<Rightarrow> (Some TypeError, p)
         | Some b \<Rightarrow> (None, update_element b (classList_add ''using-keyboard'') p))
      else (None, p))"

definition pointer_down :: "page \<Rightarrow> js_error option \<times> page" where
  "pointer_down p =
     (case document_body (elements p) of
        None \<Rightarrow> (Some TypeError, p)
      | Some b \<Rightarrow> (None, update_element b (classList_remove ''using-keyboard'') p))"

subsection \<open>Viewport height\<close>

text \<open>
  \<^verbatim>\<open>
  function setVhProperty() {
      const vh = window.innerHeight * 0.01;
      document.documentElement.style.setProperty('--vh', `${vh}px`);
  }
  \<close>
\<close>

definition setVhProperty :: "page \<Rightarrow> js_error option \<times> page" where
  "setVhProperty p =
     (let vh = times_0_01 (innerHeight p) in
      case documentElement (elements p) of
        None \<Rightarrow> (Some TypeError, p)
      | Some d \<Rightarrow>
          (None, emit (VhComputed (innerHeight p))
                   (update_element d (\<lambda>e. e\<lparr>style := (style e)(''--vh'' \<mapsto> Px vh)\<rparr>) p)))"

text \<open>\<^verbatim>\<open>setTimeout(f, delay)\<close> and \<^verbatim>\<open>clearTimeout(id)\<close>; \<^verbatim>\<open>clearTimeout(undefined)\<close> does nothing.\<close>

definition setTimeout :: "timer_callback \<Rightarrow> nat \<Rightarrow> page \<Rightarrow> nat \<times> page" where
  "setTimeout f delay p =
     (timerSeq p,
      p\<lparr>timers := timers p @ [\<lparr>t_id = timerSeq p, t_due = clock p + delay, t_callback = f\<rparr>],
        timerSeq := Suc (timerSeq p)\<rparr>)"

definition clearTimeout :: "nat option \<Rightarrow> page \<Rightarrow> page" where
  "clearTimeout h p =
     (case h of None \<Rightarrow> p | Some i \<Rightarrow> p\<lparr>timers := filter (\<lambda>t. t_id t \<noteq> i) (timers p)\<rparr>)"

text \<open>
  The two listeners \<^verbatim>\<open>init\<close> registers on the window:
  \<^verbatim>\<open>
  let resizeTimer;
  window.addEventListener('resize', () => {
      clearTimeout(resizeTimer);
      resizeTimer = setTimeout(() => { setVhProperty(); }, 100);
  });
  window.addEventListener('orientationchange', () => {
      setTimeout(setVhProperty, 100);
  });
  \<close>
\<close>

definition resize_debounce :: "page \<Rightarrow> page" where
  "resize_debounce p =
     (case setTimeout ResizeTimeout 100 (clearTimeout (resizeTimer p) p) of
        (i, p1) \<Rightarrow> p1\<lparr>resizeTimer := Some i\<rparr>)"

definition orientation_delay :: "page \<Rightarrow> page" where
  "orientation_delay p = snd (setTimeout SetVhDirect 100 p)"

subsection \<open>Initialisation\<close>

text \<open>
  \<^verbatim>\<open>
  function init() {
      if (document.readyState === 'loading') {
          document.addEventListener('DOMContentLoaded', init);
          return;
      }
      checkReducedMotion();
      addStaggerDelay();
      initScrollAnimations();
      initSmoothScroll();
      optimizeImageLoading();
      initGifPreloading();
      secureExternalLinks();
      enhanceKeyboardNavigation();
      setVhProperty();
      if (window.location.hostname === 'localhost' || window.location.hostname === '127.0.0.1') {
          logPerformance();
      }
      let resizeTimer;
      window.addEventListener('resize', ...);
      window.addEventListener('orientationchange', ...);
  }
  \<close>
\<close>

definition and_then ::
  "js_error option \<times> page \<Rightarrow> (page \<Rightarrow> js_error option \<times> page) \<Rightarrow> js_error option \<times> page" where
  "and_then r f = (case r of (Some e, p) \<Rightarrow> (Some e, p) | (None, p) \<Rightarrow> f p)"

definition init_features :: "page \<Rightarrow> page" where
  "init_features p =
     secureExternalLinks (initGifPreloading (optimizeImageLoading (initSmoothScroll
       (initScrollAnimations (addStaggerDelay p)))))"

definition init_window :: "page \<Rightarrow> page" where
  "init_window p =
     (let p1 = (if hostname p = ''localhost'' \<or> hostname p = ''127.0.0.1''
                then logPerformance p else p);
          p2 = p1\<lparr>resizeTimer := None\<rparr>
      in addEventListener Window OrientationChange OrientationDelay False
           (addEventListener Window Resize ResizeDebounce False p2))"

definition init :: "page \<Rightarrow> js_error option \<times> page" where
  "init p =
     (if readyState p = ''loading''
      then (None, addEventListener Document DOMContentLoaded Init False p)
      else
        and_then (checkReducedMotion p) (\<lambda>p1.
        and_then (enhanceKeyboardNavigation (init_features p1)) (\<lambda>p2.
        and_then (setVhProperty p2) (\<lambda>p3.
        (None, init_window p3)))))"

section \<open>The host: events and timers\<close>

text \<open>An exception that leaves a listener or a timer callback is reported by the host.\<close>

definition report :: "js_error option \<times> page \<Rightarrow> page" where
  "report r = (case r of (None, p) \<Rightarrow> p | (Some e, p) \<Rightarrow> emit (Uncaught e) p)"

text \<open>
  Running a listener. \<^verbatim>\<open>this\<close> is the element the listener is registered on; \<open>key\<close> is
  \<^verbatim>\<open>e.key\<close> of a keyboard event.
\<close>

definition run_callback :: "listener \<Rightarrow> string \<Rightarrow> page \<Rightarrow> page" where
  "run_callback l key p =
     (case l_callback l of
        SmoothScrollClick \<Rightarrow> (case l_target l of Elem i \<Rightarrow> smoothScroll_click i p | _ \<Rightarrow> p)
      | ImageLoaded \<Rightarrow> (case l_target l of Elem i \<Rightarrow> image_loaded i p | _ \<Rightarrow> p)
      | ImageFailed \<Rightarrow> (case l_target l of Elem i \<Rightarrow> image_failed i p | _ \<Rightarrow> p)
      | PreloadGif a \<Rightarrow> preload_gif a p
      | MotionChanged \<Rightarrow> report (motion_changed p)
      | TabPressed \<Rightarrow> report (tab_pressed key p)
      | PointerDown \<Rightarrow> report (pointer_down p)
      | ResizeDebounce \<Rightarrow> resize_debounce p
      | OrientationDelay \<Rightarrow> orientation_delay p
      | LogPageLoad \<Rightarrow> log_page_load p
      | Init \<Rightarrow> report (init p))"

text \<open>
  Dispatch: the listeners registered for the target and the type when the dispatch starts
  run in the order of their registration; a listener registered with \<^verbatim>\<open>{ once: true }\<close> is
  removed just before it runs.
\<close>

fun invoke_listeners :: "listener list \<Rightarrow> string \<Rightarrow> page \<Rightarrow> page" where
  "invoke_listeners [] key p = p"
| "invoke_listeners (l # ls) key p =
     invoke_listeners ls key
       (run_callback l key (if l_once l then p\<lparr>listeners := remove1 l (listeners p)\<rparr> else p))"

definition listeners_on :: "target \<Rightarrow> event_type \<Rightarrow> page \<Rightarrow> listener list" where
  "listeners_on tg ty p = filter (\<lambda>l. l_target l = tg \<and> l_type l = ty) (listeners p)"

definition dispatchEvent :: "target \<Rightarrow> event_type \<Rightarrow> string \<Rightarrow> page \<Rightarrow> page" where
  "dispatchEvent tg ty key p = invoke_listeners (listeners_on tg ty p) key p"

text \<open>
  Timers. The clock counts the time units of \<^verbatim>\<open>setTimeout\<close>. When time passes, the pending
  timers that have come due run at their due time, the earliest first, and among equals
  the one set first.
\<close>

fun earliest :: "timer list \<Rightarrow> timer option" where
  "earliest [] = None"
| "earliest (t # ts) =
     (case earliest ts of
        None \<Rightarrow> Some t
      | Some u \<Rightarrow> if t_due u < t_due t then Some u else Some t)"

definition timer_fire :: "timer \<Rightarrow> page \<Rightarrow> page" where
  "timer_fire t p =
     (case t_callback t of
        ResizeTimeout \<Rightarrow> report (setVhProperty p)
      | SetVhDirect \<Rightarrow> report (setVhProperty p))"

function run_timers :: "nat \<Rightarrow> page \<Rightarrow> page" where
  "run_timers T p =
     (case earliest (timers p) of
        None \<Rightarrow> p
      | Some t \<Rightarrow>
          if t_due t \<le> T then
            run_timers T
              (timer_fire t (p\<lparr>clock := max (clock p) (t_due t),
                              timers := filter (\<lambda>u. t_id u \<noteq> t_id t) (timers p)\<rparr>))
          else p)"
  by pat_completeness auto
termination
proof (relation "measure (\<lambda>(T, p). length (timers p))")
  show "wf (measure (\<lambda>(T, p). length (timers p)))" by simp
next
  fix T :: nat and p :: page and t :: timer
  assume found: "earliest (timers p) = Some t" "t_due t \<le> T"
  have member: "earliest ts = Some u \<Longrightarrow> u \<in> set ts" for ts u
    by (induction ts arbitrary: u) (auto split: option.splits if_splits)
  have kept: "timers (timer_fire u q) = timers q" for u q
    by (cases "documentElement (elements q)"; cases "t_callback u")
       (simp_all add: timer_fire_def report_def setVhProperty_def emit_def update_element_def)
  from found have "t \<in> set (timers p)" by (simp add: member)
  then have "length (filter (\<lambda>u. t_id u \<noteq> t_id t) (timers p)) < length (timers p)"
    by (intro length_filter_less [of t]) auto
  then show "((T, timer_fire t (p\<lparr>clock := max (clock p) (t_due t),
                  timers := filter (\<lambda>u. t_id u \<noteq> t_id t) (timers p)\<rparr>)), (T, p))
             \<in> measure (\<lambda>(T, p). length (timers p))"
    by (simp add: kept)
qed

definition elapse :: "nat \<Rightarrow> page \<Rightarrow> page" where
  "elapse d p = (run_timers (clock p + d) p)\<lparr>clock := clock p + d\<rparr>"

text \<open>
  What the host can do to the page once the script has run. An event on an element is
  named by the element whose listeners it reaches; a key or a pointer press anywhere
  reaches the listeners of the body.
\<close>

datatype event =
    ClickOn nat
  | LoadOn nat
  | ErrorOn nat
  | MouseEnterOn nat
  | KeyPress string
  | PointerPress
  | PreferenceChange bool
  | Intersections "(nat \<times> bool) list"
  | ResizeTo nat
  | OrientationChanged
  | ContentLoaded
  | WindowLoaded
  | CompleteChanged nat bool
  | Elapse nat

definition deliver :: "event \<Rightarrow> page \<Rightarrow> page" where
  "deliver ev p =
     (case ev of
        ClickOn i \<Rightarrow> dispatchEvent (Elem i) Click [] p
      | LoadOn i \<Rightarrow> dispatchEvent (Elem i) Load [] p
      | ErrorOn i \<Rightarrow> dispatchEvent (Elem i) ErrorEv [] p
      | MouseEnterOn i \<Rightarrow> dispatchEvent (Elem i) MouseEnter [] p
      | KeyPress key \<Rightarrow>
          (case document_body (elements p) of
             None \<Rightarrow> p | Some b \<Rightarrow> dispatchEvent (Elem b) KeyDown key p)
      | PointerPress \<Rightarrow>
          (case document_body (elements p) of
             None \<Rightarrow> p | Some b \<Rightarrow> dispatchEvent (Elem b) MouseDown [] p)
      | PreferenceChange b \<Rightarrow> dispatchEvent MediaQuery Change [] (p\<lparr>reducedMotion := b\<rparr>)
      | Intersections entries \<Rightarrow>
          (case observer p of
             None \<Rightarrow> p
           | Some obs \<Rightarrow> observer_callback (filter (\<lambda>entry. fst entry \<in> set obs) entries) p)
      | ResizeTo h \<Rightarrow> dispatchEvent Window Resize [] (p\<lparr>innerHeight := h\<rparr>)
      | OrientationChanged \<Rightarrow> dispatchEvent Window OrientationChange [] p
      | ContentLoaded \<Rightarrow> dispatchEvent Document DOMContentLoaded [] (p\<lparr>readyState := ''interactive''\<rparr>)
      | WindowLoaded \<Rightarrow> dispatchEvent Window Load [] (p\<lparr>readyState := ''complete''\<rparr>)
      | CompleteChanged i b \<Rightarrow> update_element i (\<lambda>e. e\<lparr>complete := b\<rparr>) p
      | Elapse d \<Rightarrow> elapse d p)"

definition run :: "event list \<Rightarrow> page \<Rightarrow> page" where
  "run evs p = fold deliver evs p"

text \<open>The script itself: \<^verbatim>\<open>init();\<close>\<close>

definition script :: "page \<Rightarrow> page" where
  "script p = report (init p)"

section \<open>What the properties speak of\<close>

text \<open>The value of the \<^verbatim>\<open>rel\<close> attribute, empty when the attribute is absent.\<close>

definition rel_value :: "element \<Rightarrow> string" where
  "rel_value e = (case getAttribute ''rel'' e of None \<Rightarrow> [] | Some r \<Rightarrow> r)"


text \<open>The assignments to \<^verbatim>\<open>src\<close> so far: the image and the value.\<close>

definition src_assignments :: "page \<Rightarrow> (nat \<times> string) list" where
  "src_assignments p =
     concat (map (\<lambda>x. case snd x of SrcAssigned i v \<Rightarrow> [(i, v)] | _ \<Rightarrow> []) (effects p))"




subsection \<open>What the steps of the initialisation leave alone\<close>

text \<open>
  Every step of \<^verbatim>\<open>init\<close> keeps the tag of an element and only adds to its classes;
  the steps between \<^verbatim>\<open>checkReducedMotion\<close> and the listeners on the window register
  listeners on elements only and touch neither the timers nor the host's settings.
\<close>

definition element_grows :: "element \<Rightarrow> element \<Rightarrow> bool" where
  "element_grows e e' = (tag e' = tag e \<and> set (classes e) \<subseteq> set (classes e'))"

definition elem_target :: "listener \<Rightarrow> bool" where
  "elem_target l = (case l_target l of Elem j \<Rightarrow> True | _ \<Rightarrow> False)"

definition feature_step :: "page \<Rightarrow> page \<Rightarrow> bool" where
  "feature_step p q =
     (list_all2 element_grows (elements p) (elements q)
      \<and> (\<exists>ls. listeners q = listeners p @ ls \<and> list_all elem_target ls)
      \<and> timers q = timers p \<and> timerSeq q = timerSeq p \<and> clock q = clock p
      \<and> resizeTimer q = resizeTimer p \<and> reducedMotion q = reducedMotion p
      \<and> innerHeight q = innerHeight p \<and> hostname q = hostname p
      \<and> hasPerformance q = hasPerformance p \<and> readyState q = readyState p)"

text \<open>A step keeps a property \<open>f\<close> of every element (a style property, say).\<close>

definition keeps :: "(element \<Rightarrow> 'a) \<Rightarrow> page \<Rightarrow> page \<Rightarrow> bool" where
  "keeps f p q =
     (length (elements q) = length (elements p)
      \<and> (\<forall>i. f (elements q ! i) = f (elements p ! i)))"


section \<open>Example pages\<close>

definition plain_element :: element where
  "plain_element =
     \<lparr>tag = ''div'', attrs = Map.empty, classes = [], style = Map.empty, ndesc = 0,
      complete = False, src = [], offsetTop = 0, offsetHeight = 0\<rparr>"

text \<open>A page as the script finds it: no listener, no observer, no timer yet.\<close>

definition fresh_page :: "element list \<Rightarrow> page" where
  "fresh_page es =
     \<lparr>elements = es, listeners = [], observer = None, hasIntersectionObserver = True,
      reducedMotion = False, innerHeight = 800, readyState = ''interactive'',
      hostname = ''example.org'', hasPerformance = True, pageLoadTime = 0,
      selectorEngine = (\<lambda>sel es. Inr None), clock = 0, timerSeq = 1, timers = [],
      resizeTimer = None, effects = []\<rparr>"

text \<open>Three links that open a new browsing context.\<close>

definition external_link :: "string option \<Rightarrow> element" where
  "external_link r =
     plain_element\<lparr>tag := ''a'', attrs := (\<lambda>a. if a = ''target'' then Some ''_blank''
                                             else if a = ''rel'' then r else None)\<rparr>"

definition three_links :: page where
  "three_links =
     fresh_page [external_link (Some ''noopener''), external_link (Some ''xnoopenerx''),
                 external_link None]"






text \<open>A project link around one animated image, complete or not.\<close>

definition gif_page :: "bool \<Rightarrow> page" where
  "gif_page done =
     fresh_page
       [plain_element\<lparr>tag := ''a'', classes := [''project-link''], ndesc := 1\<rparr>,
        plain_element\<lparr>tag := ''img'', classes := [''project-image-animated''], complete := done,
                       src := ''https://example.org/work.gif''\<rparr>]"

text \<open>A document with a body and one element marked \<^verbatim>\<open>data-animate\<close>; the user prefers reduced motion.\<close>

definition motion_page :: page where
  "motion_page =
     (fresh_page
        [plain_element\<lparr>tag := ''html'', ndesc := 2\<rparr>,
         plain_element\<lparr>tag := ''body'', ndesc := 1\<rparr>,
         plain_element\<lparr>attrs := [''data-animate'' \<mapsto> []]\<rparr>])\<lparr>reducedMotion := True\<rparr>"

text \<open>Four project cards among other elements.\<close>

definition project_card :: element where
  "project_card = plain_element\<lparr>classes := [''project-card'']\<rparr>"

definition cards_page :: page where
  "cards_page =
     fresh_page
       [plain_element\<lparr>tag := ''html'', ndesc := 6\<rparr>, plain_element\<lparr>tag := ''body'', ndesc := 5\<rparr>,
        project_card, project_card, plain_element, project_card, project_card]"

chapter \<open>Properties\<close>

section \<open>Node lists and strings\<close>

lemma length_forEach_element [simp]: "length (forEach_element idxs f es) = length es"
  unfolding forEach_element_def by (induction idxs arbitrary: es) auto

lemma forEach_element_nth:
  "distinct idxs \<Longrightarrow> i < length es \<Longrightarrow>
   forEach_element idxs f es ! i = (if i \<in> set idxs then f (es ! i) else es ! i)"
  unfolding forEach_element_def
proof (induction idxs arbitrary: es)
  case Nil
  then show ?case by simp
next
  case (Cons j idxs)
  have "i \<in> set idxs \<Longrightarrow> i \<noteq> j" using Cons.prems by auto
  with Cons show ?case by (auto simp: nth_list_update)
qed

lemma distinct_querySelectorAll [simp]: "distinct (querySelectorAll sel es)"
  by (simp add: querySelectorAll_def)

lemma set_querySelectorAll:
  "set (querySelectorAll sel es) = {i. i < length es \<and> matches sel (es ! i)}"
  by (auto simp: querySelectorAll_def)

lemma forEach_matching_nth:
  "i < length es \<Longrightarrow>
   forEach_element (querySelectorAll sel es) f es ! i =
     (if matches sel (es ! i) then f (es ! i) else es ! i)"
  by (simp add: forEach_element_nth set_querySelectorAll)

lemma indexOf_from_sublist: "indexOf_from k pat s = - 1 \<longleftrightarrow> \<not> sublist pat s"
  by (induction s arbitrary: k) (auto simp: sublist_Cons_right)

lemma indexOf_sublist: "indexOf s pat = - 1 \<longleftrightarrow> \<not> sublist pat s"
  by (simp add: indexOf_def indexOf_from_sublist)


section \<open>External link hardening\<close>

lemma secure_link_appends:
  "getAttribute ''rel'' e = None \<or> \<not> sublist ''noopener'' (rel_value e) \<Longrightarrow>
   secure_link e = setAttribute ''rel'' (rel_value e @ '' noopener noreferrer'') e"
  by (auto simp: secure_link_def rel_value_def hasAttribute_def getAttribute_def indexOf_sublist
           split: option.splits)

lemma secure_link_unchanged:
  "getAttribute ''rel'' e = Some r \<Longrightarrow> sublist ''noopener'' r \<Longrightarrow> secure_link e = e"
  by (auto simp: secure_link_def hasAttribute_def getAttribute_def indexOf_sublist)

lemma secureExternalLinks_nth:
  assumes "i < length (elements p)"
    and "tag (elements p ! i) = ''a''"
    and "getAttribute ''target'' (elements p ! i) = Some ''_blank''"
  shows "elements (secureExternalLinks p) ! i = secure_link (elements p ! i)"
proof -
  have "matches (TagAttrEq ''a'' ''target'' ''_blank'') (elements p ! i)"
    using assms(2,3) by (simp add: getAttribute_def)
  with assms(1) show ?thesis
    by (simp add: secureExternalLinks_def forEach_matching_nth)
qed




text \<open>
  Claim C10. \<^verbatim>\<open>secureExternalLinks\<close> leaves a link whose \<^verbatim>\<open>rel\<close> value contains
  \<^verbatim>\<open>noopener\<close> as a substring exactly as it was; so a link with \<^verbatim>\<open>rel="noopener"\<close> keeps
  that value and never gains \<^verbatim>\<open>noreferrer\<close>; and where \<^verbatim>\<open>rel\<close> is absent the value written
  is \<^verbatim>\<open> noopener noreferrer\<close>, with its leading space.
\<close>

theorem secureExternalLinks_substring_guard:
  assumes "i < length (elements p)"
    and "tag (elements p ! i) = ''a''"
    and "getAttribute ''target'' (elements p ! i) = Some ''_blank''"
  shows "(\<forall>r. getAttribute ''rel'' (elements p ! i) = Some r \<and> sublist ''noopener'' r \<longrightarrow>
            elements (secureExternalLinks p) ! i = elements p ! i)
       \<and> (getAttribute ''rel'' (elements p ! i) = Some ''noopener'' \<longrightarrow>
            getAttribute ''rel'' (elements (secureExternalLinks p) ! i) = Some ''noopener''
            \<and> ''noreferrer'' \<notin> set (rel_tokens (rel_value (elements (secureExternalLinks p) ! i))))
       \<and> (getAttribute ''rel'' (elements p ! i) = None \<longrightarrow>
            getAttribute ''rel'' (elements (secureExternalLinks p) ! i)
              = Some (CHR '' '' # ''noopener noreferrer''))"
proof -
  let ?e = "elements p ! i"
  have nth: "elements (secureExternalLinks p) ! i = secure_link ?e"
    using assms by (rule secureExternalLinks_nth)
  have a: "getAttribute ''rel'' ?e = Some r \<and> sublist ''noopener'' r \<longrightarrow> secure_link ?e = ?e" for r
    by (simp add: secure_link_unchanged)
  have b: "getAttribute ''rel'' ?e = Some ''noopener'' \<longrightarrow>
      getAttribute ''rel'' (secure_link ?e) = Some ''noopener''
      \<and> ''noreferrer'' \<notin> set (rel_tokens (rel_value (secure_link ?e)))"
  proof
    assume r: "getAttribute ''rel'' ?e = Some ''noopener''"
    then have "secure_link ?e = ?e" by (rule secure_link_unchanged) simp
    with r show "getAttribute ''rel'' (secure_link ?e) = Some ''noopener''
      \<and> ''noreferrer'' \<notin> set (rel_tokens (rel_value (secure_link ?e)))"
      by (simp add: rel_value_def rel_tokens_def is_space_def)
  qed
  have c: "getAttribute ''rel'' ?e = None \<longrightarrow>
      getAttribute ''rel'' (secure_link ?e) = Some (CHR '' '' # ''noopener noreferrer'')"
    by (simp add: secure_link_appends rel_value_def getAttribute_def setAttribute_def)
  from a b c show ?thesis unfolding nth by blast
qed

text \<open>
  Three links: \<^verbatim>\<open>rel="noopener"\<close>, \<^verbatim>\<open>rel="xnoopenerx"\<close> and no \<^verbatim>\<open>rel\<close>. The first two are
  left as they were, the third gets the value with the leading space.
\<close>

theorem secureExternalLinks_substring_guard_witness:
  "elements (secureExternalLinks three_links) ! 0 = elements three_links ! 0
   \<and> ''noreferrer'' \<notin> set (rel_tokens (rel_value (elements (secureExternalLinks three_links) ! 0)))
   \<and> elements (secureExternalLinks three_links) ! 1 = elements three_links ! 1
   \<and> getAttribute ''rel'' (elements (secureExternalLinks three_links) ! 2)
       = Some (CHR '' '' # ''noopener noreferrer'')"
proof -
  have es: "elements three_links =
      [external_link (Some ''noopener''), external_link (Some ''xnoopenerx''), external_link None]"
    by (simp add: three_links_def fresh_page_def)
  have link: "tag (external_link r) = ''a''"
    "getAttribute ''target'' (external_link r) = Some ''_blank''"
    "getAttribute ''rel'' (external_link r) = r" for r
    by (simp_all add: external_link_def plain_element_def getAttribute_def)
  have sub: "sublist ''noopener'' ''noopener''" "sublist ''noopener'' ''xnoopenerx''"
    by (simp_all add: sublist_Cons_right)
  show ?thesis
    using secureExternalLinks_substring_guard [of 0 three_links]
      secureExternalLinks_substring_guard [of 1 three_links]
      secureExternalLinks_substring_guard [of 2 three_links]
    by (simp add: es link sub rel_value_def rel_tokens_def is_space_def)
qed

section \<open>Listeners\<close>

lemma elements_addEventListener [simp]: "elements (addEventListener tg ty cb once p) = elements p"
  by (simp add: addEventListener_def)

lemma listeners_addEventListener:
  "listeners (addEventListener tg ty cb once p)
     = listeners p @ [\<lparr>l_target = tg, l_type = ty, l_callback = cb, l_once = once\<rparr>]"
  by (simp add: addEventListener_def)

lemma fold_addEventListener:
  "listeners (fold (\<lambda>a. addEventListener (Elem a) ty cb once) xs p)
     = listeners p @ map (\<lambda>a. \<lparr>l_target = Elem a, l_type = ty, l_callback = cb, l_once = once\<rparr>) xs
   \<and> elements (fold (\<lambda>a. addEventListener (Elem a) ty cb once) xs p) = elements p"
  by (induction xs arbitrary: p) (simp_all add: listeners_addEventListener)


lemma listeners_on_append:
  "listeners_on tg ty (p\<lparr>listeners := xs @ ys\<rparr>)
     = listeners_on tg ty (p\<lparr>listeners := xs\<rparr>) @ listeners_on tg ty (p\<lparr>listeners := ys\<rparr>)"
  by (simp add: listeners_on_def)

lemma dispatch_single:
  "listeners_on tg ty p = [l] \<Longrightarrow> \<not> l_once l \<Longrightarrow> dispatchEvent tg ty key p = run_callback l key p"
  by (simp add: dispatchEvent_def)

lemma dispatch_none: "listeners_on tg ty p = [] \<Longrightarrow> dispatchEvent tg ty key p = p"
  by (simp add: dispatchEvent_def)

section \<open>Smooth scroll\<close>

lemma querySelector_string_emit [simp]: "querySelector_string h (emit x p) = querySelector_string h p"
  by (simp add: querySelector_string_def emit_def split: list.splits)

lemma elements_emit [simp]: "elements (emit x p) = elements p"
  by (simp add: emit_def)







section \<open>Image loading\<close>

lemma concat_map_only:
  "distinct xs \<Longrightarrow> concat (map (\<lambda>j. if j = i then ys else []) xs) = (if i \<in> set xs then ys else [])"
  by (induction xs) auto

lemma complete_update_element [simp]:
  "complete (elements (update_element j (classList_add c) p) ! k) = complete (elements p ! k)"
  by (cases "j < length (elements p)")
     (auto simp: update_element_def classList_add_def nth_list_update list_update_beyond)

lemma listeners_update_element [simp]: "listeners (update_element j f p) = listeners p"
  by (simp add: update_element_def)

lemma complete_optimize_image [simp]:
  "complete (elements (optimize_image j p) ! k) = complete (elements p ! k)"
  by (simp add: optimize_image_def)




lemma run_Nil [simp]: "run [] p = p"
  by (simp add: run_def)

lemma run_Cons [simp]: "run (e # evs) p = run evs (deliver e p)"
  by (simp add: run_def)

















section \<open>Preloading on hover\<close>

lemma listeners_preload_link:
  "listeners (preload_link j p)
     = listeners p @
       (case querySelector_within j (HasClass ''project-image-animated'') (elements p) of
          None \<Rightarrow> []
        | Some a \<Rightarrow> [\<lparr>l_target = Elem j, l_type = MouseEnter, l_callback = PreloadGif a, l_once = True\<rparr>])"
  and elements_preload_link [simp]: "elements (preload_link j p) = elements p"
  and effects_preload_link [simp]: "effects (preload_link j p) = effects p"
  by (simp_all add: preload_link_def addEventListener_def split: option.splits)

lemma fold_preload_link:
  "listeners (fold preload_link xs p)
     = listeners p @ concat (map (\<lambda>j.
         case querySelector_within j (HasClass ''project-image-animated'') (elements p) of
           None \<Rightarrow> []
         | Some a \<Rightarrow> [\<lparr>l_target = Elem j, l_type = MouseEnter, l_callback = PreloadGif a, l_once = True\<rparr>]) xs)
   \<and> elements (fold preload_link xs p) = elements p
   \<and> effects (fold preload_link xs p) = effects p"
proof (induction xs arbitrary: p)
  case Nil
  then show ?case by simp
next
  case (Cons x xs)
  show ?case
    using Cons.IH [of "preload_link x p"] by (simp add: listeners_preload_link)
qed

lemma initGifPreloading_frame [simp]:
  "elements (initGifPreloading p) = elements p"
  "effects (initGifPreloading p) = effects p"
  by (simp_all add: initGifPreloading_def fold_preload_link)

lemma initGifPreloading_registers:
  assumes "i < length (elements p)"
    and "matches (HasClass ''project-link'') (elements p ! i)"
    and "querySelector_within i (HasClass ''project-image-animated'') (elements p) = Some a"
  shows "listeners_on (Elem i) MouseEnter (initGifPreloading p)
           = listeners_on (Elem i) MouseEnter p
             @ [\<lparr>l_target = Elem i, l_type = MouseEnter, l_callback = PreloadGif a, l_once = True\<rparr>]"
proof -
  let ?xs = "querySelectorAll (HasClass ''project-link'') (elements p)"
  have in_xs: "i \<in> set ?xs" using assms(1,2) by (simp add: set_querySelectorAll)
  have f: "(\<lambda>j. filter (\<lambda>l. l_target l = Elem i \<and> l_type l = MouseEnter)
        (case querySelector_within j (HasClass ''project-image-animated'') (elements p) of
           None \<Rightarrow> []
         | Some a \<Rightarrow> [\<lparr>l_target = Elem j, l_type = MouseEnter, l_callback = PreloadGif a, l_once = True\<rparr>]))
      = (\<lambda>j. if j = i
              then [\<lparr>l_target = Elem i, l_type = MouseEnter, l_callback = PreloadGif a, l_once = True\<rparr>]
              else [])"
    using assms(3) by (auto simp: fun_eq_iff split: option.splits)
  show ?thesis
    using in_xs
    by (simp add: listeners_on_def initGifPreloading_def fold_preload_link filter_concat comp_def f
          concat_map_only)
qed

lemma filter_remove1_single: "filter P xs = [x] \<Longrightarrow> filter P (remove1 x xs) = []"
proof (induction xs)
  case Nil
  then show ?case by simp
next
  case (Cons y ys)
  show ?case
  proof (cases "P y")
    case True
    with Cons.prems have "y = x" "filter P ys = []" by simp_all
    then show ?thesis by simp
  next
    case False
    with Cons.prems have "filter P ys = [x]" by simp
    moreover from this have "P x" by (metis filter_eq_ConsD)
    with False have "y \<noteq> x" by auto
    ultimately show ?thesis using False Cons.IH by simp
  qed
qed

lemma dispatch_once:
  assumes "listeners_on tg ty s = [l]" and "l_once l"
  shows "dispatchEvent tg ty key s = run_callback l key (s\<lparr>listeners := remove1 l (listeners s)\<rparr>)"
  using assms by (simp add: dispatchEvent_def)

lemma preload_gif_frame:
  "listeners (preload_gif a s) = listeners s"
  "length (elements (preload_gif a s)) = length (elements s)"
  "effects (preload_gif a s)
     = effects s @ (if complete (elements s ! a) then []
                    else [(clock s, SrcAssigned a []), (clock s, SrcAssigned a (src (elements s ! a)))])"
  by (simp_all add: preload_gif_def assign_src_def emit_def update_element_def Let_def)

lemma preload_gif_src:
  "a < length (elements s) \<Longrightarrow> src (elements (preload_gif a s) ! a) = src (elements s ! a)"
  by (simp add: preload_gif_def assign_src_def emit_def update_element_def Let_def)

lemma first_mouseenter:
  assumes "listeners_on (Elem i) MouseEnter s
             = [\<lparr>l_target = Elem i, l_type = MouseEnter, l_callback = PreloadGif a, l_once = True\<rparr>]"
  shows "listeners_on (Elem i) MouseEnter (deliver (MouseEnterOn i) s) = []"
    and "effects (deliver (MouseEnterOn i) s)
           = effects s @ (if complete (elements s ! a) then []
                          else [(clock s, SrcAssigned a []),
                                (clock s, SrcAssigned a (src (elements s ! a)))])"
proof -
  let ?l = "\<lparr>l_target = Elem i, l_type = MouseEnter, l_callback = PreloadGif a, l_once = True\<rparr>"
  let ?s = "s\<lparr>listeners := remove1 ?l (listeners s)\<rparr>"
  have d: "deliver (MouseEnterOn i) s = preload_gif a ?s"
    using assms by (simp add: deliver_def dispatch_once run_callback_def)
  have "filter (\<lambda>l. l_target l = Elem i \<and> l_type l = MouseEnter) (remove1 ?l (listeners s)) = []"
    using assms unfolding listeners_on_def by (rule filter_remove1_single)
  then show "listeners_on (Elem i) MouseEnter (deliver (MouseEnterOn i) s) = []"
    unfolding d by (simp add: listeners_on_def preload_gif_frame)
  show "effects (deliver (MouseEnterOn i) s)
           = effects s @ (if complete (elements s ! a) then []
                          else [(clock s, SrcAssigned a []),
                                (clock s, SrcAssigned a (src (elements s ! a)))])"
    unfolding d by (simp add: preload_gif_frame)
qed

lemma later_mouseenters:
  "listeners_on (Elem i) MouseEnter s = [] \<Longrightarrow> run (replicate n (MouseEnterOn i)) s = s"
  by (induction n) (simp_all add: deliver_def dispatch_none)

text \<open>
  Claim C6, as amended. For every project link \<open>i\<close> whose first descendant of class
  \<^verbatim>\<open>project-image-animated\<close> is \<open>a\<close>, \<^verbatim>\<open>initGifPreloading\<close> registers one pointer-enter
  listener with the \<^verbatim>\<open>once\<close> option. The first pointer-enter event removes it, and
  force-reloads the image (assigns the empty string and then the old address to its
  \<^verbatim>\<open>src\<close>) only if the image is not complete at that moment; any number of further
  pointer-enter events changes nothing. So two pointer-enter events force the reload once
  when the image was not complete at the first, and not at all when it was.
\<close>

theorem gif_preload_at_most_once:
  assumes "i < length (elements p)"
    and "matches (HasClass ''project-link'') (elements p ! i)"
    and "querySelector_within i (HasClass ''project-image-animated'') (elements p) = Some a"
    and "listeners_on (Elem i) MouseEnter p = []"
  shows "listeners_on (Elem i) MouseEnter (initGifPreloading p)
           = [\<lparr>l_target = Elem i, l_type = MouseEnter, l_callback = PreloadGif a, l_once = True\<rparr>]
       \<and> listeners_on (Elem i) MouseEnter (deliver (MouseEnterOn i) (initGifPreloading p)) = []
       \<and> effects (run (MouseEnterOn i # replicate n (MouseEnterOn i)) (initGifPreloading p))
           = effects p @ (if complete (elements p ! a) then []
                          else [(clock (initGifPreloading p), SrcAssigned a []),
                                (clock (initGifPreloading p), SrcAssigned a (src (elements p ! a)))])"
proof -
  let ?q = "initGifPreloading p"
  have l: "listeners_on (Elem i) MouseEnter ?q
           = [\<lparr>l_target = Elem i, l_type = MouseEnter, l_callback = PreloadGif a, l_once = True\<rparr>]"
    using initGifPreloading_registers [OF assms(1-3)] assms(4) by simp
  note f = first_mouseenter [OF l]
  have "run (MouseEnterOn i # replicate n (MouseEnterOn i)) ?q = deliver (MouseEnterOn i) ?q"
    by (simp add: later_mouseenters [OF f(1)])
  then show ?thesis using l f by simp
qed

text \<open>The link around an image that is not complete: two pointer-enter events, one reload.\<close>

theorem gif_preload_at_most_once_witness:
  "src_assignments (run [MouseEnterOn 0, MouseEnterOn 0] (initGifPreloading (gif_page False)))
     = [(1, []), (1, ''https://example.org/work.gif'')]"
proof -
  have facts: "0 < length (elements (gif_page False))"
    "matches (HasClass ''project-link'') (elements (gif_page False) ! 0)"
    "querySelector_within 0 (HasClass ''project-image-animated'') (elements (gif_page False)) = Some 1"
    "listeners_on (Elem 0) MouseEnter (gif_page False) = []"
    "\<not> complete (elements (gif_page False) ! 1)"
    "src (elements (gif_page False) ! 1) = ''https://example.org/work.gif''"
    "\<not> complete (elements (gif_page False) ! Suc 0)"
    "src (elements (gif_page False) ! Suc 0) = ''https://example.org/work.gif''"
    "effects (gif_page False) = []"
    by (simp_all add: gif_page_def fresh_page_def plain_element_def querySelector_within_def
          listeners_on_def)
  show ?thesis
    using gif_preload_at_most_once [OF facts(1-4), of 1]
    by (simp add: facts src_assignments_def del: run_Cons)
qed

text \<open>
  Claim C6 as stated fails where the image is complete at the first pointer-enter: two
  pointer-enter events on the link, and no assignment to \<^verbatim>\<open>src\<close> at all.
\<close>

theorem gif_preload_exactly_once_counterexample:
  "src_assignments (run [MouseEnterOn 0, MouseEnterOn 0] (initGifPreloading (gif_page True))) = []"
proof -
  have facts: "0 < length (elements (gif_page True))"
    "matches (HasClass ''project-link'') (elements (gif_page True) ! 0)"
    "querySelector_within 0 (HasClass ''project-image-animated'') (elements (gif_page True)) = Some 1"
    "listeners_on (Elem 0) MouseEnter (gif_page True) = []"
    "complete (elements (gif_page True) ! 1)"
    "complete (elements (gif_page True) ! Suc 0)"
    "effects (gif_page True) = []"
    by (simp_all add: gif_page_def fresh_page_def plain_element_def querySelector_within_def
          listeners_on_def)
  let ?q = "initGifPreloading (gif_page True)"
  have l: "listeners_on (Elem 0) MouseEnter ?q
           = [\<lparr>l_target = Elem 0, l_type = MouseEnter, l_callback = PreloadGif 1, l_once = True\<rparr>]"
    using initGifPreloading_registers [OF facts(1-3)] facts(4) by simp
  note f = first_mouseenter [OF l]
  have "run [MouseEnterOn 0, MouseEnterOn 0] ?q = deliver (MouseEnterOn 0) ?q"
    using later_mouseenters [OF f(1), of 1] by simp
  then show ?thesis using f(2) by (simp add: facts src_assignments_def del: run_Cons)
qed

section \<open>The steps of the initialisation\<close>

lemma element_grows_refl [simp]: "element_grows e e"
  by (simp add: element_grows_def)

lemma element_grows_trans: "element_grows a b \<Longrightarrow> element_grows b c \<Longrightarrow> element_grows a c"
  by (auto simp: element_grows_def)

lemma elements_grow_refl [simp]: "list_all2 element_grows es es"
  by (simp add: list_all2_refl)

lemma elements_grow_trans:
  "list_all2 element_grows a b \<Longrightarrow> list_all2 element_grows b c \<Longrightarrow> list_all2 element_grows a c"
  by (rule list_all2_trans [of element_grows element_grows element_grows])
     (auto intro: element_grows_trans)

lemma elements_grow_update:
  assumes "\<And>e. element_grows e (f e)"
  shows "list_all2 element_grows es (es[j := f (es ! j)])"
proof -
  have "element_grows (es ! i) (es[j := f (es ! j)] ! i)" if "i < length es" for i
    using that assms [of "es ! j"] by (cases "i = j") simp_all
  then show ?thesis by (simp add: list_all2_conv_all_nth)
qed

lemma elements_grow_fold:
  assumes "\<And>x e. element_grows e (f x e)"
  shows "list_all2 element_grows es (fold (\<lambda>x acc. acc[g x := f x (acc ! g x)]) xs es)"
proof (induction xs arbitrary: es)
  case Nil
  then show ?case by simp
next
  case (Cons x xs)
  have "list_all2 element_grows es (es[g x := f x (es ! g x)])"
    using assms by (rule elements_grow_update)
  then show ?case
    using Cons.IH [of "es[g x := f x (es ! g x)]"] by (auto intro: elements_grow_trans)
qed

lemma elements_grow_forEach:
  assumes "\<And>e. element_grows e (f e)"
  shows "list_all2 element_grows es (forEach_element idxs f es)"
  unfolding forEach_element_def
  using elements_grow_fold [of "\<lambda>x. f" es "\<lambda>x. x" idxs] assms by simp

lemma classList_add_grows [simp]: "element_grows e (classList_add c e)"
  by (auto simp: element_grows_def classList_add_def)

lemma document_body_grows:
  assumes "list_all2 element_grows es es'"
  shows "document_body es' = document_body es"
proof -
  have len: "length es' = length es" using assms by (simp add: list_all2_lengthD)
  have "filter (\<lambda>i. tag (es' ! i) = ''body'') [0..<length es]
      = filter (\<lambda>i. tag (es ! i) = ''body'') [0..<length es]"
    using assms by (intro filter_cong) (auto simp: list_all2_conv_all_nth element_grows_def)
  then show ?thesis by (simp add: document_body_def len)
qed

lemma feature_step_refl [simp]: "feature_step p p"
  by (simp add: feature_step_def)

lemma feature_step_trans:
  assumes "feature_step p q" and "feature_step q r"
  shows "feature_step p r"
proof -
  from assms obtain ls ms where
    "listeners q = listeners p @ ls" "list_all elem_target ls"
    "listeners r = listeners q @ ms" "list_all elem_target ms"
    by (auto simp: feature_step_def)
  then have "listeners r = listeners p @ (ls @ ms) \<and> list_all elem_target (ls @ ms)" by simp
  then have "\<exists>ks. listeners r = listeners p @ ks \<and> list_all elem_target ks" by blast
  moreover have "list_all2 element_grows (elements p) (elements r)"
    using assms by (auto simp: feature_step_def intro: elements_grow_trans)
  ultimately show ?thesis
    using assms by (simp add: feature_step_def)
qed

lemma feature_step_fold:
  assumes "\<And>x s. feature_step s (f x s)"
  shows "feature_step p (fold f xs p)"
proof (induction xs arbitrary: p)
  case Nil
  then show ?case by simp
next
  case (Cons x xs)
  show ?case
    using assms [of p x] Cons.IH [of "f x p"] by (auto intro: feature_step_trans)
qed

lemma feature_step_elements:
  assumes "list_all2 element_grows (elements p) es"
  shows "feature_step p (p\<lparr>elements := es\<rparr>)"
  using assms by (simp add: feature_step_def)

lemma feature_step_update_element:
  assumes "\<And>e. element_grows e (f e)"
  shows "feature_step p (update_element j f p)"
  unfolding update_element_def
  by (rule feature_step_elements) (rule elements_grow_update [OF assms])

lemma feature_step_listener: "feature_step p (addEventListener (Elem j) ty cb once p)"
proof -
  have "list_all elem_target [\<lparr>l_target = Elem j, l_type = ty, l_callback = cb, l_once = once\<rparr>]"
    by (simp add: elem_target_def)
  then show ?thesis
    unfolding feature_step_def addEventListener_def by simp
qed

lemma feature_step_emit: "feature_step p (emit x p)"
  by (simp add: feature_step_def emit_def)

lemma feature_step_addStaggerDelay: "feature_step p (addStaggerDelay p)"
proof -
  have g: "element_grows e (set_transitionDelay k e)" for k e
    by (simp add: element_grows_def set_transitionDelay_def)
  have "list_all2 element_grows (elements p)
      (fold (\<lambda>x acc. acc[snd x := set_transitionDelay (fst x) (acc ! snd x)])
         (enumerate 0 (querySelectorAll (HasClass ''project-card'') (elements p))) (elements p))"
    by (rule elements_grow_fold) (rule g)
  then show ?thesis
    by (simp add: addStaggerDelay_def Let_def case_prod_unfold feature_step_elements)
qed

lemma feature_step_initScrollAnimations: "feature_step p (initScrollAnimations p)"
proof (cases "hasIntersectionObserver p")
  case True
  then show ?thesis by (simp add: initScrollAnimations_def feature_step_def)
next
  case False
  then show ?thesis
    by (simp add: initScrollAnimations_def feature_step_elements elements_grow_forEach)
qed

lemma feature_step_initSmoothScroll: "feature_step p (initSmoothScroll p)"
  unfolding initSmoothScroll_def by (rule feature_step_fold) (rule feature_step_listener)

lemma feature_step_optimizeImageLoading: "feature_step p (optimizeImageLoading p)"
  unfolding optimizeImageLoading_def
proof (rule feature_step_fold)
  fix x s
  show "feature_step s (optimize_image x s)"
    unfolding optimize_image_def
    by (auto intro: feature_step_update_element feature_step_listener feature_step_trans)
qed

lemma feature_step_initGifPreloading: "feature_step p (initGifPreloading p)"
  unfolding initGifPreloading_def
proof (rule feature_step_fold)
  fix x s
  show "feature_step s (preload_link x s)"
    unfolding preload_link_def by (auto intro: feature_step_listener split: option.splits)
qed

lemma feature_step_secureExternalLinks: "feature_step p (secureExternalLinks p)"
proof -
  have "element_grows e (secure_link e)" for e
    by (simp add: element_grows_def secure_link_def setAttribute_def Let_def)
  then show ?thesis
    unfolding secureExternalLinks_def
    by (intro feature_step_elements elements_grow_forEach)
qed

lemma feature_step_init_features: "feature_step p (init_features p)"
proof -
  let ?p1 = "addStaggerDelay p"
  let ?p2 = "initScrollAnimations ?p1"
  let ?p3 = "initSmoothScroll ?p2"
  let ?p4 = "optimizeImageLoading ?p3"
  let ?p5 = "initGifPreloading ?p4"
  note feature_step_addStaggerDelay [of p]
  note feature_step_trans [OF this feature_step_initScrollAnimations [of ?p1]]
  note feature_step_trans [OF this feature_step_initSmoothScroll [of ?p2]]
  note feature_step_trans [OF this feature_step_optimizeImageLoading [of ?p3]]
  note feature_step_trans [OF this feature_step_initGifPreloading [of ?p4]]
  note feature_step_trans [OF this feature_step_secureExternalLinks [of ?p5]]
  then show ?thesis by (simp add: init_features_def)
qed

lemma document_body_nonempty: "document_body es = Some b \<Longrightarrow> b < length es \<and> tag (es ! b) = ''body''"
proof -
  assume a: "document_body es = Some b"
  then obtain rest where "filter (\<lambda>i. tag (es ! i) = ''body'') [0..<length es] = b # rest"
    by (auto simp: document_body_def split: list.splits)
  then have "b \<in> set (filter (\<lambda>i. tag (es ! i) = ''body'') [0..<length es])" by simp
  then show ?thesis by simp
qed

lemma checkReducedMotion_summary:
  assumes "document_body (elements p) = Some b"
  shows "fst (checkReducedMotion p) = None"
    and "listeners (snd (checkReducedMotion p))
           = listeners p @ [\<lparr>l_target = MediaQuery, l_type = Change, l_callback = MotionChanged, l_once = False\<rparr>]"
    and "list_all2 element_grows (elements p) (elements (snd (checkReducedMotion p)))"
    and "observer (snd (checkReducedMotion p)) = observer p"
    and "timers (snd (checkReducedMotion p)) = timers p"
    and "clock (snd (checkReducedMotion p)) = clock p"
    and "innerHeight (snd (checkReducedMotion p)) = innerHeight p"
    and "readyState (snd (checkReducedMotion p)) = readyState p"
    and "effects (snd (checkReducedMotion p)) = effects p"
proof -
  let ?p1 = "update_element b (classList_add ''reduce-motion'') p"
  have g: "list_all2 element_grows (elements p)
      (forEach_element (querySelectorAll (HasAttr ''data-animate'') (elements ?p1))
         (classList_add ''animate-in'') (elements ?p1))"
  proof (rule elements_grow_trans)
    show "list_all2 element_grows (elements p) (elements ?p1)"
      unfolding update_element_def by (simp add: elements_grow_update)
    show "list_all2 element_grows (elements ?p1)
      (forEach_element (querySelectorAll (HasAttr ''data-animate'') (elements ?p1))
         (classList_add ''animate-in'') (elements ?p1))"
      by (simp add: elements_grow_forEach)
  qed
  show "fst (checkReducedMotion p) = None"
    using assms by (simp add: checkReducedMotion_def Let_def)
  show "listeners (snd (checkReducedMotion p))
           = listeners p @ [\<lparr>l_target = MediaQuery, l_type = Change, l_callback = MotionChanged, l_once = False\<rparr>]"
    using assms by (simp add: checkReducedMotion_def Let_def addEventListener_def update_element_def)
  show "list_all2 element_grows (elements p) (elements (snd (checkReducedMotion p)))"
    using assms g by (simp add: checkReducedMotion_def Let_def)
  show "observer (snd (checkReducedMotion p)) = observer p"
    "timers (snd (checkReducedMotion p)) = timers p"
    "clock (snd (checkReducedMotion p)) = clock p"
    "innerHeight (snd (checkReducedMotion p)) = innerHeight p"
    "readyState (snd (checkReducedMotion p)) = readyState p"
    "effects (snd (checkReducedMotion p)) = effects p"
    using assms by (simp_all add: checkReducedMotion_def Let_def addEventListener_def update_element_def)
qed

lemma checkReducedMotion_reveals:
  assumes "document_body (elements p) = Some b"
    and "reducedMotion p"
    and "i < length (elements p)"
    and "hasAttribute ''data-animate'' (elements p ! i)"
  shows "''animate-in'' \<in> set (classes (elements (snd (checkReducedMotion p)) ! i))"
proof -
  let ?es = "(elements p)[b := classList_add ''reduce-motion'' (elements p ! b)]"
  have "hasAttribute ''data-animate'' (?es ! i)"
    using assms(3,4) by (cases "i = b") (auto simp: hasAttribute_def classList_add_def)
  then have m: "matches (HasAttr ''data-animate'') (?es ! i)" by simp
  have "forEach_element (querySelectorAll (HasAttr ''data-animate'') ?es)
          (classList_add ''animate-in'') ?es ! i = classList_add ''animate-in'' (?es ! i)"
    using assms(3) m by (simp add: forEach_matching_nth)
  moreover have "''animate-in'' \<in> set (classes (classList_add ''animate-in'' e))" for e
    by (simp add: classList_add_def)
  ultimately show ?thesis
    using assms(1,2) by (simp add: checkReducedMotion_def Let_def update_element_def)
qed

lemma enhanceKeyboardNavigation_summary:
  assumes "document_body (elements p) = Some b"
  shows "fst (enhanceKeyboardNavigation p) = None"
    and "feature_step p (snd (enhanceKeyboardNavigation p))"
    and "observer (snd (enhanceKeyboardNavigation p)) = observer p"
proof -
  show "fst (enhanceKeyboardNavigation p) = None"
    and "observer (snd (enhanceKeyboardNavigation p)) = observer p"
    using assms by (simp_all add: enhanceKeyboardNavigation_def addEventListener_def)
  have "feature_step p (addEventListener (Elem b) MouseDown PointerDown False
          (addEventListener (Elem b) KeyDown TabPressed False p))"
    by (blast intro: feature_step_trans feature_step_listener)
  then show "feature_step p (snd (enhanceKeyboardNavigation p))"
    using assms by (simp add: enhanceKeyboardNavigation_def)
qed

lemma setVhProperty_summary:
  assumes "elements p \<noteq> []"
  shows "fst (setVhProperty p) = None"
    and "feature_step p (snd (setVhProperty p))"
    and "observer (snd (setVhProperty p)) = observer p"
    and "effects (snd (setVhProperty p)) = effects p @ [(clock p, VhComputed (innerHeight p))]"
proof -
  have g: "element_grows e (e\<lparr>style := (style e)(''--vh'' \<mapsto> v)\<rparr>)" for e v
    by (simp add: element_grows_def)
  have "feature_step p (emit (VhComputed (innerHeight p))
      (update_element 0 (\<lambda>e. e\<lparr>style := (style e)(''--vh'' \<mapsto> Px (times_0_01 (innerHeight p)))\<rparr>) p))"
    by (rule feature_step_trans [OF feature_step_update_element feature_step_emit]) (rule g)
  then show "feature_step p (snd (setVhProperty p))"
    using assms by (simp add: setVhProperty_def documentElement_def Let_def)
  show "fst (setVhProperty p) = None"
    "observer (snd (setVhProperty p)) = observer p"
    "effects (snd (setVhProperty p)) = effects p @ [(clock p, VhComputed (innerHeight p))]"
    using assms by (simp_all add: setVhProperty_def documentElement_def Let_def emit_def update_element_def)
qed

lemma and_then_None: "fst r = None \<Longrightarrow> and_then r f = f (snd r)"
  by (cases r) (simp add: and_then_def)

lemma init_window_summary:
  "listeners (init_window p)
     = listeners p
       @ (if (hostname p = ''localhost'' \<or> hostname p = ''127.0.0.1'') \<and> hasPerformance p
          then [\<lparr>l_target = Window, l_type = Load, l_callback = LogPageLoad, l_once = False\<rparr>] else [])
       @ [\<lparr>l_target = Window, l_type = Resize, l_callback = ResizeDebounce, l_once = False\<rparr>,
          \<lparr>l_target = Window, l_type = OrientationChange, l_callback = OrientationDelay, l_once = False\<rparr>]"
  "elements (init_window p) = elements p"
  "timers (init_window p) = timers p"
  "clock (init_window p) = clock p"
  "innerHeight (init_window p) = innerHeight p"
  "effects (init_window p) = effects p"
  "observer (init_window p) = observer p"
  by (simp_all add: init_window_def logPerformance_def addEventListener_def Let_def)

lemma init_summary:
  assumes "readyState p \<noteq> ''loading''"
    and "document_body (elements p) = Some b"
  obtains p3 ls where
    "init p = (None, init_window p3)"
    "feature_step (snd (checkReducedMotion p)) p3"
    "listeners p3
       = listeners p @ \<lparr>l_target = MediaQuery, l_type = Change, l_callback = MotionChanged, l_once = False\<rparr> # ls"
    "list_all elem_target ls"
    "list_all2 element_grows (elements p) (elements p3)"
proof -
  let ?p1 = "snd (checkReducedMotion p)"
  let ?f = "init_features ?p1"
  let ?p2 = "snd (enhanceKeyboardNavigation ?f)"
  let ?p3 = "snd (setVhProperty ?p2)"
  note c = checkReducedMotion_summary [OF assms(2)]
  have b1: "document_body (elements ?p1) = Some b"
    using document_body_grows [OF c(3)] assms(2) by simp
  have f1: "feature_step ?p1 ?f" by (rule feature_step_init_features)
  then have bf: "document_body (elements ?f) = Some b"
    using b1 document_body_grows [of "elements ?p1" "elements ?f"] by (simp add: feature_step_def)
  note k = enhanceKeyboardNavigation_summary [OF bf]
  have f2: "feature_step ?p1 ?p2" by (rule feature_step_trans [OF f1 k(2)])
  then have "document_body (elements ?p2) = Some b"
    using b1 document_body_grows [of "elements ?p1" "elements ?p2"] by (simp add: feature_step_def)
  then have ne: "elements ?p2 \<noteq> []"
    using document_body_nonempty by fastforce
  note v = setVhProperty_summary [OF ne]
  have f3: "feature_step ?p1 ?p3" by (rule feature_step_trans [OF f2 v(2)])
  then obtain ls where ls: "listeners ?p3 = listeners ?p1 @ ls" "list_all elem_target ls"
    by (auto simp: feature_step_def)
  have i: "init p = (None, init_window ?p3)"
    using assms(1) by (simp add: init_def and_then_None c(1) k(1) v(1))
  have l: "listeners ?p3
       = listeners p @ \<lparr>l_target = MediaQuery, l_type = Change, l_callback = MotionChanged, l_once = False\<rparr> # ls"
    using ls(1) c(2) by simp
  have g: "list_all2 element_grows (elements p) (elements ?p3)"
    using f3 c(3) by (auto simp: feature_step_def intro: elements_grow_trans)
  from i f3 l ls(2) g show thesis by (rule that)
qed

lemma document_body_update:
  assumes "\<And>e. tag (f e) = tag e"
  shows "document_body (es[j := f (es ! j)]) = document_body es"
proof -
  have "tag (es[j := f (es ! j)] ! i) = tag (es ! i)" if "i < length es" for i
    using that assms by (cases "i = j") simp_all
  then have "filter (\<lambda>i. tag (es[j := f (es ! j)] ! i) = ''body'') [0..<length es]
      = filter (\<lambda>i. tag (es ! i) = ''body'') [0..<length es]"
    by (intro filter_cong) auto
  then show ?thesis by (simp add: document_body_def)
qed

lemma deliver_PreferenceChange:
  assumes "listeners_on MediaQuery Change s
             = [\<lparr>l_target = MediaQuery, l_type = Change, l_callback = MotionChanged, l_once = False\<rparr>]"
    and "document_body (elements s) = Some b"
  shows "deliver (PreferenceChange x) s
           = update_element b
               (if x then classList_add ''reduce-motion'' else classList_remove ''reduce-motion'')
               (s\<lparr>reducedMotion := x\<rparr>)"
proof -
  have "listeners_on MediaQuery Change (s\<lparr>reducedMotion := x\<rparr>)
      = [\<lparr>l_target = MediaQuery, l_type = Change, l_callback = MotionChanged, l_once = False\<rparr>]"
    using assms(1) by (simp add: listeners_on_def)
  then have "deliver (PreferenceChange x) s = report (motion_changed (s\<lparr>reducedMotion := x\<rparr>))"
    by (simp add: deliver_def dispatch_single run_callback_def)
  then show ?thesis
    using assms(2) by (simp add: motion_changed_def report_def)
qed

lemma run_preference_changes:
  assumes "listeners_on MediaQuery Change s
             = [\<lparr>l_target = MediaQuery, l_type = Change, l_callback = MotionChanged, l_once = False\<rparr>]"
    and "document_body (elements s) = Some b"
  shows "(\<forall>i. i \<noteq> b \<longrightarrow> elements (run (map PreferenceChange bs) s) ! i = elements s ! i)
       \<and> elements (run (map PreferenceChange bs) s) ! b
           = (elements s ! b)\<lparr>classes := classes (elements (run (map PreferenceChange bs) s) ! b)\<rparr>
       \<and> (\<forall>c. c \<noteq> ''reduce-motion'' \<longrightarrow>
             (c \<in> set (classes (elements (run (map PreferenceChange bs) s) ! b))
              \<longleftrightarrow> c \<in> set (classes (elements s ! b))))
       \<and> (bs \<noteq> [] \<longrightarrow>
             (''reduce-motion'' \<in> set (classes (elements (run (map PreferenceChange bs) s) ! b))
              \<longleftrightarrow> last bs))
       \<and> observer (run (map PreferenceChange bs) s) = observer s
       \<and> listeners (run (map PreferenceChange bs) s) = listeners s"
  using assms
proof (induction bs arbitrary: s)
  case Nil
  then show ?case by simp
next
  case (Cons x bs)
  let ?f = "if x then classList_add ''reduce-motion'' else classList_remove ''reduce-motion''"
  let ?s = "update_element b ?f (s\<lparr>reducedMotion := x\<rparr>)"
  have d: "deliver (PreferenceChange x) s = ?s"
    using Cons.prems by (rule deliver_PreferenceChange)
  have blen: "b < length (elements s)"
    using Cons.prems(2) document_body_nonempty by blast
  have tagf: "tag (?f e) = tag e" for e
    by (simp add: classList_add_def classList_remove_def)
  have s1: "listeners_on MediaQuery Change ?s
             = [\<lparr>l_target = MediaQuery, l_type = Change, l_callback = MotionChanged, l_once = False\<rparr>]"
    using Cons.prems(1) by (simp add: listeners_on_def update_element_def)
  have s2: "document_body (elements ?s) = Some b"
    using Cons.prems(2) document_body_update [of ?f "elements s" b, OF tagf]
    by (simp add: update_element_def)
  have e1: "i \<noteq> b \<Longrightarrow> elements ?s ! i = elements s ! i" for i
    by (simp add: update_element_def)
  have e2: "elements ?s ! b = ?f (elements s ! b)"
    using blen by (simp add: update_element_def)
  have e3: "c \<noteq> ''reduce-motion'' \<Longrightarrow>
      (c \<in> set (classes (?f (elements s ! b))) \<longleftrightarrow> c \<in> set (classes (elements s ! b)))" for c
    by (auto simp: classList_add_def classList_remove_def)
  have e4: "''reduce-motion'' \<in> set (classes (?f (elements s ! b))) \<longleftrightarrow> x"
    by (auto simp: classList_add_def classList_remove_def)
  have "?f (elements s ! b) = (elements s ! b)\<lparr>classes := classes (?f (elements s ! b))\<rparr>"
    by (simp add: classList_add_def classList_remove_def)
  then obtain cs where e5: "?f (elements s ! b) = (elements s ! b)\<lparr>classes := cs\<rparr>"
    by blast
  have e6: "observer ?s = observer s" "listeners ?s = listeners s"
    by (simp_all add: update_element_def)
  note ih = Cons.IH [OF s1 s2]
  let ?r = "run (map PreferenceChange bs) ?s"
  from ih have "elements ?r ! b = (elements ?s ! b)\<lparr>classes := classes (elements ?r ! b)\<rparr>"
    by blast
  then have body: "elements ?r ! b = (elements s ! b)\<lparr>classes := classes (elements ?r ! b)\<rparr>"
    unfolding e2 e5 by simp
  have others: "i \<noteq> b \<Longrightarrow> elements ?r ! i = elements s ! i" for i
    using ih e1 by simp
  have kept: "c \<noteq> ''reduce-motion'' \<Longrightarrow>
      (c \<in> set (classes (elements ?r ! b)) \<longleftrightarrow> c \<in> set (classes (elements s ! b)))" for c
    using ih e3 [of c] by (simp add: e2)
  have final: "''reduce-motion'' \<in> set (classes (elements ?r ! b)) \<longleftrightarrow> last (x # bs)"
  proof (cases "bs = []")
    case True
    then show ?thesis using e4 by (simp add: e2)
  next
    case False
    then show ?thesis using ih by simp
  qed
  have rest: "observer ?r = observer s" "listeners ?r = listeners s"
    using ih e6 by simp_all
  have r: "run (map PreferenceChange (x # bs)) s = ?r"
    by (simp add: d)
  show ?case
    unfolding r using body others kept final rest by blast
qed

lemma listeners_on_elem_targets:
  assumes "list_all elem_target ls" and "\<And>j. tg \<noteq> Elem j"
  shows "filter (\<lambda>l. l_target l = tg \<and> l_type l = ty) ls = []"
proof -
  have "\<not> (l_target l = tg \<and> l_type l = ty)" if "l \<in> set ls" for l
  proof -
    from that assms(1) have "elem_target l" by (simp add: list_all_iff)
    then obtain j where "l_target l = Elem j"
      by (cases "l_target l") (simp_all add: elem_target_def)
    with assms(2) show ?thesis by auto
  qed
  then show ?thesis by (simp add: filter_empty_conv)
qed

text \<open>
  Claim C4. Let \<^verbatim>\<open>init\<close> run on a loaded document with a body, on a page with no observer
  and no listener for preference changes yet. It does not throw. If the reduced-motion
  preference is active, every element with the \<^verbatim>\<open>data-animate\<close> attribute has the class
  \<^verbatim>\<open>animate-in\<close> as soon as \<^verbatim>\<open>checkReducedMotion\<close>, the first step, returns, when no
  observer exists yet, and still has it when \<^verbatim>\<open>init\<close> returns. After \<^verbatim>\<open>init\<close>, any sequence of
  preference changes leaves every element but the body as it was, and changes of the
  body nothing but the presence of the class \<^verbatim>\<open>reduce-motion\<close>, which follows the last
  change; the observer is untouched.
\<close>

theorem reduced_motion_reveal_and_changes:
  assumes "readyState p \<noteq> ''loading''"
    and "document_body (elements p) = Some b"
    and "listeners_on MediaQuery Change p = []"
    and "observer p = None"
  shows "fst (init p) = None
       \<and> (reducedMotion p \<longrightarrow>
            observer (snd (checkReducedMotion p)) = None
            \<and> (\<forall>i<length (elements p). hasAttribute ''data-animate'' (elements p ! i) \<longrightarrow>
                  ''animate-in'' \<in> set (classes (elements (snd (checkReducedMotion p)) ! i))
                  \<and> ''animate-in'' \<in> set (classes (elements (snd (init p)) ! i))))
       \<and> (\<forall>i. i \<noteq> b \<longrightarrow>
             elements (run (map PreferenceChange bs) (snd (init p))) ! i = elements (snd (init p)) ! i)
       \<and> elements (run (map PreferenceChange bs) (snd (init p))) ! b
           = (elements (snd (init p)) ! b)
               \<lparr>classes := classes (elements (run (map PreferenceChange bs) (snd (init p))) ! b)\<rparr>
       \<and> (\<forall>c. c \<noteq> ''reduce-motion'' \<longrightarrow>
             (c \<in> set (classes (elements (run (map PreferenceChange bs) (snd (init p))) ! b))
              \<longleftrightarrow> c \<in> set (classes (elements (snd (init p)) ! b))))
       \<and> (bs \<noteq> [] \<longrightarrow>
             (''reduce-motion'' \<in> set (classes (elements (run (map PreferenceChange bs) (snd (init p))) ! b))
              \<longleftrightarrow> last bs))
       \<and> observer (run (map PreferenceChange bs) (snd (init p))) = observer (snd (init p))"
proof -
  let ?p1 = "snd (checkReducedMotion p)"
  let ?motion = "\<lparr>l_target = MediaQuery, l_type = Change, l_callback = MotionChanged, l_once = False\<rparr>"
  from assms(1,2) obtain p3 ls where
    i: "init p = (None, init_window p3)"
    and f: "feature_step ?p1 p3"
    and l: "listeners p3 = listeners p @ ?motion # ls"
    and t: "list_all elem_target ls"
    and g: "list_all2 element_grows (elements p) (elements p3)"
    by (rule init_summary)
  let ?q = "init_window p3"
  have q: "snd (init p) = ?q" by (simp add: i)
  have none: "filter (\<lambda>l. l_target l = MediaQuery \<and> l_type l = Change) ls = []"
    using t by (rule listeners_on_elem_targets) simp
  have "filter (\<lambda>l. l_target l = MediaQuery \<and> l_type l = Change) (listeners p) = []"
    using assms(3) by (simp add: listeners_on_def)
  then have lq: "listeners_on MediaQuery Change ?q = [?motion]"
    by (simp add: listeners_on_def init_window_summary l none)
  have bq: "document_body (elements ?q) = Some b"
    using document_body_grows [OF g] assms(2) by (simp add: init_window_summary)
  note c = checkReducedMotion_summary [OF assms(2)]
  have reveal: "''animate-in'' \<in> set (classes (elements ?p1 ! k))
      \<and> ''animate-in'' \<in> set (classes (elements ?q ! k))"
    if "reducedMotion p" "k < length (elements p)" "hasAttribute ''data-animate'' (elements p ! k)" for k
  proof -
    have in1: "''animate-in'' \<in> set (classes (elements ?p1 ! k))"
      using assms(2) that by (rule checkReducedMotion_reveals)
    have "k < length (elements ?p1)"
      using that(2) c(3) by (simp add: list_all2_lengthD)
    moreover have "list_all2 element_grows (elements ?p1) (elements p3)"
      using f by (simp add: feature_step_def)
    ultimately have "element_grows (elements ?p1 ! k) (elements p3 ! k)"
      by (simp add: list_all2_conv_all_nth)
    with in1 have "''animate-in'' \<in> set (classes (elements p3 ! k))"
      by (auto simp: element_grows_def)
    with in1 show ?thesis by (simp add: init_window_summary)
  qed
  have first: "fst (init p) = None" by (simp add: i)
  have obs: "observer ?p1 = None" using c(4) assms(4) by simp
  note r = run_preference_changes [OF lq bq, of bs]
  show ?thesis
    unfolding q using first obs reveal r unfolding q by blast
qed

text \<open>
  On the example page (reduced motion preferred) the marked element is revealed by
  \<^verbatim>\<open>init\<close>; when the preference is switched off and on again the body has the class
  \<^verbatim>\<open>reduce-motion\<close> again and the marked element is as \<^verbatim>\<open>init\<close> left it.
\<close>

theorem reduced_motion_reveal_and_changes_witness:
  "fst (init motion_page) = None
   \<and> ''animate-in'' \<in> set (classes (elements (snd (init motion_page)) ! 2))
   \<and> elements (run [PreferenceChange False, PreferenceChange True] (snd (init motion_page))) ! 2
       = elements (snd (init motion_page)) ! 2
   \<and> ''reduce-motion''
       \<in> set (classes (elements (run [PreferenceChange False, PreferenceChange True] (snd (init motion_page))) ! 1))"
proof -
  have es: "elements motion_page =
        [plain_element\<lparr>tag := ''html'', ndesc := 2\<rparr>,
         plain_element\<lparr>tag := ''body'', ndesc := 1\<rparr>,
         plain_element\<lparr>attrs := [''data-animate'' \<mapsto> []]\<rparr>]"
    by (simp add: motion_page_def fresh_page_def)
  have facts: "readyState motion_page \<noteq> ''loading''"
    "document_body (elements motion_page) = Some 1"
    "listeners_on MediaQuery Change motion_page = []"
    "observer motion_page = None"
    "reducedMotion motion_page"
    "length (elements motion_page) = 3"
    "hasAttribute ''data-animate'' (elements motion_page ! 2)"
    by (simp_all add: es document_body_def plain_element_def upt_rec hasAttribute_def)
       (simp_all add: motion_page_def fresh_page_def listeners_on_def)
  show ?thesis
    using reduced_motion_reveal_and_changes [OF facts(1-4), of "[False, True]"]
    by (simp add: facts del: run_Cons)
qed

section \<open>Timers\<close>

declare run_timers.simps [simp del]






section \<open>Viewport height on resize and orientation change\<close>



lemma deliver_Elapse [simp]: "deliver (Elapse d) s = elapse d s"
  by (simp add: deliver_def)
















section \<open>Doubles\<close>

declare bitlen.simps [simp del]

lemma bitlen_bounds: "n < 2 ^ bitlen n \<and> (0 < n \<longrightarrow> 2 ^ (bitlen n - 1) \<le> n)"
proof (induction n rule: bitlen.induct)
  case (1 n)
  show ?case
  proof (cases "n = 0")
    case True
    then show ?thesis by (simp add: bitlen.simps)
  next
    case False
    then have b: "bitlen n = Suc (bitlen (n div 2))" by (subst bitlen.simps) simp
    from 1 False have ih: "n div 2 < 2 ^ bitlen (n div 2)"
      "0 < n div 2 \<longrightarrow> 2 ^ (bitlen (n div 2) - 1) \<le> n div 2"
      by simp_all
    have upper: "n < 2 ^ bitlen n" using ih(1) by (simp add: b)
    have lower: "2 ^ (bitlen n - 1) \<le> n"
    proof (cases "n div 2 = 0")
      case True
      then have "bitlen (n div 2) = 0" by (simp add: bitlen.simps)
      with False show ?thesis by (simp add: b)
    next
      case nz: False
      then have "bitlen (n div 2) = Suc (bitlen (n div 2 div 2))"
        by (subst bitlen.simps) simp
      then have "bitlen (n div 2) = Suc (bitlen (n div 2) - 1)"
        by simp
      then have "(2::nat) ^ bitlen (n div 2) = 2 * 2 ^ (bitlen (n div 2) - 1)"
        by (metis power_Suc)
      with ih(2) nz have "2 ^ bitlen (n div 2) \<le> 2 * (n div 2)" by simp
      then show ?thesis by (simp add: b)
    qed
    from upper lower show ?thesis by simp
  qed
qed

lemma round_to_53_error:
  "n * (2 ^ 53 - 1) \<le> round_to_53 n * 2 ^ 53 \<and> round_to_53 n * 2 ^ 53 \<le> n * (2 ^ 53 + 1)"
proof (cases "bitlen n \<le> 53")
  case True
  then show ?thesis by (simp add: round_to_53_def algebra_simps)
next
  case False
  define s where "s = bitlen n - 53"
  define H :: nat where "H = 2 ^ (s - 1)"
  define q where "q = n div 2 ^ s"
  define r where "r = n mod 2 ^ s"
  have s1: "1 \<le> s" using False by (simp add: s_def)
  then have two: "(2::nat) ^ s = 2 * H"
    unfolding H_def by (metis One_nat_def Suc_pred less_eq_Suc_le power_Suc)
  have "0 < n" using False by (cases "n = 0") (simp_all add: bitlen.simps)
  then have "2 ^ (bitlen n - 1) \<le> n" using bitlen_bounds by blast
  moreover have "bitlen n - 1 = (s - 1) + 53" using False s1 by (simp add: s_def)
  ultimately have big: "H * 2 ^ 53 \<le> n" by (simp add: H_def power_add)
  have n: "n = q * (2 * H) + r"
    unfolding q_def r_def two [symmetric] by (simp only: div_mult_mod_eq)
  have rlt: "r < 2 * H" unfolding r_def two [symmetric] by simp
  define Q where "Q = q * (2 * H)"
  have nQ: "n = Q + r" using n by (simp add: Q_def)
  have "round_to_53 n
      = (if 2 ^ (s - 1) < n mod 2 ^ s \<or> (n mod 2 ^ s = 2 ^ (s - 1) \<and> odd (n div 2 ^ s))
         then n div 2 ^ s + 1 else n div 2 ^ s) * 2 ^ s"
    using False by (simp add: round_to_53_def Let_def s_def)
  then have "round_to_53 n = (if H < r \<or> (r = H \<and> odd q) then q + 1 else q) * 2 ^ s"
    unfolding q_def r_def H_def .
  then have rnd: "round_to_53 n = (if H < r \<or> (r = H \<and> odd q) then Q + 2 * H else Q)"
    by (simp add: two Q_def algebra_simps)
  show ?thesis
  proof (cases "H < r \<or> (r = H \<and> odd q)")
    case True
    then have "H \<le> r" by auto
    with rlt big nQ show ?thesis unfolding rnd by (simp add: True algebra_simps)
  next
    case no: False
    then have "r \<le> H" by auto
    with big nQ show ?thesis unfolding rnd by (simp add: no algebra_simps)
  qed
qed

lemma times_0_1_rounding:
  "k * 7205759403792794 * (2 ^ 53 - 1) \<le> round_to_53 (k * 7205759403792794) * 2 ^ 53"
  "round_to_53 (k * 7205759403792794) * 2 ^ 53 \<le> k * 7205759403792794 * (2 ^ 53 + 1)"
  using round_to_53_error [of "k * 7205759403792794"] by simp_all

lemma times_0_1_strict_mono:
  assumes "k < k'" and "k' < 2 ^ 52"
  shows "times_0_1 k < times_0_1 k'"
proof -
  let ?R = "round_to_53 (k * 7205759403792794)" and ?R' = "round_to_53 (k' * 7205759403792794)"
  have "?R * 2 ^ 53 \<le> k * 7205759403792794 * (2 ^ 53 + 1)"
    by (rule times_0_1_rounding)
  also have "\<dots> < k' * 7205759403792794 * (2 ^ 53 - 1)"
    using assms by simp
  also have "\<dots> \<le> ?R' * 2 ^ 53"
    by (rule times_0_1_rounding)
  finally have "?R < ?R'" by simp
  then have "(of_nat ?R :: rat) < of_nat ?R'" by (simp only: of_nat_less_iff)
  then show ?thesis
    by (simp add: times_0_1_def double_product_def divide_strict_right_mono)
qed

lemma times_0_1_close:
  "\<bar>times_0_1 k - of_nat k / 10\<bar> \<le> of_nat k / 10 / 2 ^ 52"
proof -
  let ?R = "round_to_53 (k * 7205759403792794)"
  have up: "?R * 10 * 2 ^ 52 \<le> k * (2 ^ 52 + 1) * 2 ^ 56"
    using times_0_1_rounding(2) [of k] by simp
  have lo: "k * (2 ^ 52 - 1) * 2 ^ 56 \<le> ?R * 10 * 2 ^ 52"
    using times_0_1_rounding(1) [of k] by simp
  from up have "(of_nat (?R * 10 * 2 ^ 52) :: rat) \<le> of_nat (k * (2 ^ 52 + 1) * 2 ^ 56)"
    by (simp only: of_nat_le_iff)
  then have up': "(of_nat ?R :: rat) / 2 ^ 56 \<le> of_nat k / 10 + of_nat k / 10 / 2 ^ 52"
    by (simp add: field_simps)
  from lo have "(of_nat (k * (2 ^ 52 - 1) * 2 ^ 56) :: rat) \<le> of_nat (?R * 10 * 2 ^ 52)"
    by (simp only: of_nat_le_iff)
  then have lo': "(of_nat k :: rat) / 10 - of_nat k / 10 / 2 ^ 52 \<le> of_nat ?R / 2 ^ 56"
    by (simp add: field_simps)
  have t: "times_0_1 k = of_nat ?R / 2 ^ 56"
    by (simp add: times_0_1_def double_product_def)
  have "\<bar>a - b\<bar> \<le> c" if "a \<le> b + c" "b - c \<le> a" for a b c :: rat
    using that by linarith
  from this [OF up' lo'] show ?thesis
    unfolding t .
qed

lemma times_0_1_at_3: "times_0_1 3 = 5404319552844596 / 2 ^ 54"
  by (simp add: times_0_1_def double_product_def round_to_53_def bitlen.simps Let_def)

lemma times_0_1_small:
  "times_0_1 0 = 0" "times_0_1 1 = 7205759403792794 / 2 ^ 56" "times_0_1 2 = 7205759403792794 / 2 ^ 55"
  by (simp_all add: times_0_1_def double_product_def round_to_53_def bitlen.simps Let_def)

section \<open>Stagger delays\<close>

lemma fold_enumerate_update:
  assumes "distinct idxs" and "\<forall>i\<in>set idxs. i < length es"
  shows "length (fold (\<lambda>(k, i) acc. acc[i := g k (acc ! i)]) (enumerate n idxs) es) = length es
       \<and> (\<forall>k<length idxs.
             fold (\<lambda>(k, i) acc. acc[i := g k (acc ! i)]) (enumerate n idxs) es ! (idxs ! k)
               = g (n + k) (es ! (idxs ! k)))
       \<and> (\<forall>j. j \<notin> set idxs \<longrightarrow>
             fold (\<lambda>(k, i) acc. acc[i := g k (acc ! i)]) (enumerate n idxs) es ! j = es ! j)"
  using assms
proof (induction idxs arbitrary: n es)
  case Nil
  then show ?case by simp
next
  case (Cons i idxs)
  let ?es = "es[i := g n (es ! i)]"
  let ?r = "fold (\<lambda>(k, i) acc. acc[i := g k (acc ! i)]) (enumerate (Suc n) idxs) ?es"
  have pre: "distinct idxs" "\<forall>j\<in>set idxs. j < length ?es"
    using Cons.prems by simp_all
  note ih = Cons.IH [OF pre, of "Suc n"]
  have i: "i \<notin> set idxs" "i < length es" using Cons.prems by simp_all
  have r: "fold (\<lambda>(k, i) acc. acc[i := g k (acc ! i)]) (enumerate n (i # idxs)) es = ?r"
    by simp
  have len: "length ?r = length es" using ih by simp
  have at: "?r ! ((i # idxs) ! k) = g (n + k) (es ! ((i # idxs) ! k))" if "k < length (i # idxs)" for k
  proof (cases k)
    case 0
    have "?r ! i = ?es ! i" using ih i(1) by blast
    then show ?thesis using 0 i(2) by simp
  next
    case (Suc m)
    then have m: "m < length idxs" using that by simp
    then have "idxs ! m \<noteq> i" using i(1) by (metis nth_mem)
    moreover have "?r ! (idxs ! m) = g (Suc n + m) (?es ! (idxs ! m))" using ih m by blast
    ultimately show ?thesis using Suc by simp
  qed
  have other: "?r ! j = es ! j" if "j \<notin> set (i # idxs)" for j
  proof -
    from that have "j \<notin> set idxs" "j \<noteq> i" by simp_all
    moreover from this have "?r ! j = ?es ! j" using ih by blast
    ultimately show ?thesis by simp
  qed
  show ?case unfolding r using len at other by blast
qed

lemma querySelectorAll_in_range: "\<forall>i\<in>set (querySelectorAll sel es). i < length es"
  by (simp add: set_querySelectorAll)

lemma querySelectorAll_document_order:
  assumes "k < k'" and "k' < length (querySelectorAll sel es)"
  shows "querySelectorAll sel es ! k < querySelectorAll sel es ! k'"
proof -
  have "sorted_wrt (<) [0..<length es]" by simp
  then have "sorted_wrt (<) (querySelectorAll sel es)"
    unfolding querySelectorAll_def by (rule sorted_wrt_filter)
  then show ?thesis using assms by (simp add: sorted_wrt_nth_less)
qed

lemma addStaggerDelay_nth:
  "length (elements (addStaggerDelay p)) = length (elements p)"
  "k < length (querySelectorAll (HasClass ''project-card'') (elements p)) \<Longrightarrow>
     elements (addStaggerDelay p) ! (querySelectorAll (HasClass ''project-card'') (elements p) ! k)
       = set_transitionDelay k (elements p ! (querySelectorAll (HasClass ''project-card'') (elements p) ! k))"
  "j \<notin> set (querySelectorAll (HasClass ''project-card'') (elements p)) \<Longrightarrow>
     elements (addStaggerDelay p) ! j = elements p ! j"
  using fold_enumerate_update [of "querySelectorAll (HasClass ''project-card'') (elements p)"
      "elements p" set_transitionDelay 0, OF distinct_querySelectorAll querySelectorAll_in_range]
  by (simp_all add: addStaggerDelay_def Let_def)

lemma keeps_refl [simp]: "keeps f p p"
  by (simp add: keeps_def)

lemma keeps_trans: "keeps f p q \<Longrightarrow> keeps f q r \<Longrightarrow> keeps f p r"
  by (simp add: keeps_def)

lemma keeps_same_elements: "elements q = elements p \<Longrightarrow> keeps f p q"
  by (simp add: keeps_def)

lemma keeps_list_update:
  assumes "\<And>e. f (g e) = f e"
  shows "f (es[j := g (es ! j)] ! i) = f (es ! i)"
proof (cases "j < length es")
  case True
  then show ?thesis using assms by (cases "i = j") simp_all
next
  case False
  then show ?thesis by (simp add: list_update_beyond)
qed

lemma keeps_update_element:
  assumes "\<And>e. f (g e) = f e"
  shows "keeps f p (update_element j g p)"
  using keeps_list_update [of f g, OF assms] by (simp add: keeps_def update_element_def)

lemma keeps_forEach_list:
  assumes "\<And>e. f (g e) = f e"
  shows "length (forEach_element idxs g es) = length es
       \<and> (\<forall>i. f (forEach_element idxs g es ! i) = f (es ! i))"
  unfolding forEach_element_def
proof (induction idxs arbitrary: es)
  case Nil
  then show ?case by simp
next
  case (Cons j idxs)
  show ?case
    using Cons.IH [of "es[j := g (es ! j)]"] keeps_list_update [of f g es j, OF assms] by simp
qed

lemma keeps_forEach:
  assumes "\<And>e. f (g e) = f e"
  shows "keeps f p (p\<lparr>elements := forEach_element idxs g (elements p)\<rparr>)"
  using keeps_forEach_list [of f g idxs "elements p", OF assms] by (simp add: keeps_def)

lemma keeps_fold:
  assumes "\<And>x s. keeps f s (g x s)"
  shows "keeps f p (fold g xs p)"
proof (induction xs arbitrary: p)
  case Nil
  then show ?case by simp
next
  case (Cons x xs)
  show ?case using assms [of p x] Cons.IH [of "g x p"] by (auto intro: keeps_trans)
qed

lemma style_classList_add [simp]: "style (classList_add c e) = style e"
  by (simp add: classList_add_def)

lemma style_secure_link [simp]: "style (secure_link e) = style e"
  by (simp add: secure_link_def setAttribute_def Let_def)

lemma keeps_style_observer_callback: "keeps style p (observer_callback entries p)"
  unfolding observer_callback_def
proof (rule keeps_fold)
  fix x s
  show "keeps style s (observer_entry x s)"
  proof (cases x)
    case (Pair t b)
    have "keeps style s (update_element t (classList_add ''animate-in'') s)"
      by (rule keeps_update_element) simp
    then show ?thesis
      by (simp add: Pair observer_entry_def keeps_def)
  qed
qed

lemma keeps_style_after_addStaggerDelay:
  "keeps style p (secureExternalLinks (initGifPreloading (optimizeImageLoading (initSmoothScroll
     (initScrollAnimations p)))))"
proof -
  let ?p2 = "initScrollAnimations p"
  let ?p3 = "initSmoothScroll ?p2"
  let ?p4 = "optimizeImageLoading ?p3"
  let ?p5 = "initGifPreloading ?p4"
  have 2: "keeps style p ?p2"
  proof (cases "hasIntersectionObserver p")
    case True
    then show ?thesis by (simp add: initScrollAnimations_def keeps_def)
  next
    case False
    then show ?thesis by (simp add: initScrollAnimations_def keeps_forEach)
  qed
  have 3: "keeps style ?p2 ?p3"
    by (rule keeps_same_elements) (simp add: initSmoothScroll_def fold_addEventListener)
  have 4: "keeps style ?p3 ?p4"
    unfolding optimizeImageLoading_def
  proof (rule keeps_fold)
    fix x s
    have "keeps style s (update_element x (classList_add ''loaded'') s)"
      by (rule keeps_update_element) simp
    then show "keeps style s (optimize_image x s)"
      by (simp add: optimize_image_def keeps_same_elements)
  qed
  have 5: "keeps style ?p4 ?p5"
    by (rule keeps_same_elements) simp
  have 6: "keeps style ?p5 (secureExternalLinks ?p5)"
    unfolding secureExternalLinks_def by (rule keeps_forEach) simp
  from 2 3 4 5 6 show ?thesis by (blast intro: keeps_trans)
qed

lemma keeps_delay_setVhProperty:
  "keeps (\<lambda>e. style e ''transitionDelay'') p (snd (setVhProperty p))"
proof (cases "documentElement (elements p)")
  case None
  then show ?thesis by (simp add: setVhProperty_def Let_def)
next
  case (Some d)
  have "keeps (\<lambda>e. style e ''transitionDelay'') p
      (update_element d (\<lambda>e. e\<lparr>style := (style e)(''--vh'' \<mapsto> Px (times_0_01 (innerHeight p)))\<rparr>) p)"
    by (rule keeps_update_element) simp
  then show ?thesis
    using Some by (simp add: setVhProperty_def Let_def keeps_def)
qed

lemma keeps_style_weaken: "keeps style p q \<Longrightarrow> keeps (\<lambda>e. style e a) p q"
  by (simp add: keeps_def)

lemma init_explicit:
  assumes "readyState p \<noteq> ''loading''"
    and "document_body (elements p) = Some b"
  shows "init p = (None, init_window (snd (setVhProperty (snd (enhanceKeyboardNavigation
           (init_features (snd (checkReducedMotion p)))))))) "
proof -
  let ?p1 = "snd (checkReducedMotion p)"
  let ?f = "init_features ?p1"
  let ?p2 = "snd (enhanceKeyboardNavigation ?f)"
  note c = checkReducedMotion_summary [OF assms(2)]
  have b1: "document_body (elements ?p1) = Some b"
    using document_body_grows [OF c(3)] assms(2) by simp
  have f1: "feature_step ?p1 ?f" by (rule feature_step_init_features)
  then have bf: "document_body (elements ?f) = Some b"
    using b1 document_body_grows [of "elements ?p1" "elements ?f"] by (simp add: feature_step_def)
  note k = enhanceKeyboardNavigation_summary [OF bf]
  have f2: "feature_step ?p1 ?p2" by (rule feature_step_trans [OF f1 k(2)])
  then have "document_body (elements ?p2) = Some b"
    using b1 document_body_grows [of "elements ?p1" "elements ?p2"] by (simp add: feature_step_def)
  then have ne: "elements ?p2 \<noteq> []"
    using document_body_nonempty by fastforce
  note v = setVhProperty_summary [OF ne]
  show ?thesis
    using assms(1) by (simp add: init_def and_then_None c(1) k(1) v(1))
qed

lemma keeps_delay_after_addStaggerDelay:
  assumes "readyState p \<noteq> ''loading''"
    and "document_body (elements p) = Some b"
  shows "keeps (\<lambda>e. style e ''transitionDelay'') (addStaggerDelay (snd (checkReducedMotion p)))
           (snd (init p))"
proof -
  let ?a = "addStaggerDelay (snd (checkReducedMotion p))"
  let ?f = "init_features (snd (checkReducedMotion p))"
  let ?k = "snd (enhanceKeyboardNavigation ?f)"
  let ?v = "snd (setVhProperty ?k)"
  have 1: "keeps (\<lambda>e. style e ''transitionDelay'') ?a ?f"
    unfolding init_features_def
    by (rule keeps_style_weaken) (rule keeps_style_after_addStaggerDelay)
  have 2: "keeps (\<lambda>e. style e ''transitionDelay'') ?f ?k"
    by (rule keeps_same_elements)
       (simp add: enhanceKeyboardNavigation_def split: option.splits)
  have 3: "keeps (\<lambda>e. style e ''transitionDelay'') ?k ?v"
    by (rule keeps_delay_setVhProperty)
  have 4: "keeps (\<lambda>e. style e ''transitionDelay'') ?v (init_window ?v)"
    by (rule keeps_same_elements) (simp add: init_window_summary)
  from 1 2 3 4 have "keeps (\<lambda>e. style e ''transitionDelay'') ?a (init_window ?v)"
    by (blast intro: keeps_trans)
  then show ?thesis by (simp add: init_explicit [OF assms])
qed

lemma checkReducedMotion_same_cards:
  "querySelectorAll (HasClass ''project-card'') (elements (snd (checkReducedMotion p)))
     = querySelectorAll (HasClass ''project-card'') (elements p)"
proof -
  let ?card = "\<lambda>e. ''project-card'' \<in> set (classes e)"
  have add: "?card (classList_add c e) = ?card e" if "c \<noteq> ''project-card''" for c e
    using that by (auto simp: classList_add_def)
  have "keeps ?card p (snd (checkReducedMotion p))"
  proof (cases "reducedMotion p")
    case False
    then show ?thesis by (simp add: checkReducedMotion_def keeps_def)
  next
    case True
    show ?thesis
    proof (cases "document_body (elements p)")
      case None
      with True show ?thesis by (simp add: checkReducedMotion_def)
    next
      case (Some b)
      let ?p1 = "update_element b (classList_add ''reduce-motion'') p"
      have 1: "keeps ?card p ?p1"
        by (rule keeps_update_element) (simp add: add)
      have 2: "keeps ?card ?p1 (?p1\<lparr>elements :=
          forEach_element (querySelectorAll (HasAttr ''data-animate'') (elements ?p1))
            (classList_add ''animate-in'') (elements ?p1)\<rparr>)"
        by (rule keeps_forEach) (simp add: add)
      from keeps_trans [OF 1 2] show ?thesis
        using True Some by (simp add: checkReducedMotion_def Let_def keeps_def)
    qed
  qed
  then have len: "length (elements (snd (checkReducedMotion p))) = length (elements p)"
    and same: "\<And>i. ?card (elements (snd (checkReducedMotion p)) ! i) = ?card (elements p ! i)"
    by (simp_all add: keeps_def)
  show ?thesis
    unfolding querySelectorAll_def len by (rule filter_cong) (simp_all add: same)
qed

lemma keeps_style_Intersections: "keeps style q (deliver (Intersections entries) q)"
  by (cases "observer q") (simp_all add: deliver_def keeps_style_observer_callback)

lemma cards_page_facts:
  "querySelectorAll (HasClass ''project-card'') (elements cards_page) = [2, 3, 5, 6]"
  "readyState cards_page \<noteq> ''loading''"
  "document_body (elements cards_page) = Some 1"
proof -
  have es: "elements cards_page =
       [plain_element\<lparr>tag := ''html'', ndesc := 6\<rparr>, plain_element\<lparr>tag := ''body'', ndesc := 5\<rparr>,
        project_card, project_card, plain_element, project_card, project_card]"
    by (simp add: cards_page_def fresh_page_def)
  show "querySelectorAll (HasClass ''project-card'') (elements cards_page) = [2, 3, 5, 6]"
    by (simp add: es querySelectorAll_def upt_rec project_card_def plain_element_def)
  show "readyState cards_page \<noteq> ''loading''"
    by (simp add: cards_page_def fresh_page_def)
  show "document_body (elements cards_page) = Some 1"
    by (simp add: es document_body_def upt_rec project_card_def plain_element_def)
qed

text \<open>
  Claim C9, as amended. Let the elements of class \<^verbatim>\<open>project-card\<close> be, in document order,
  the cards of index 0, 1, ... Then \<^verbatim>\<open>addStaggerDelay\<close> gives the card of index \<open>k\<close> the
  transition delay \<^verbatim>\<open>${k * 0.1}s\<close>, where the product is the one of double arithmetic: it
  is within a relative error of \<open>2 ^ -52\<close> of \<open>k / 10\<close>, not always \<open>k / 10\<close> itself, and it
  increases strictly with the index. The callback of the visibility observer changes no
  style. And when \<^verbatim>\<open>init\<close> runs on a loaded document with a body, the cards carry these
  delays when it returns, also after any delivery of intersection entries.
\<close>

theorem stagger_delay_by_index:
  assumes "k < length (querySelectorAll (HasClass ''project-card'') (elements p))"
  shows "style (elements (addStaggerDelay p)
                  ! (querySelectorAll (HasClass ''project-card'') (elements p) ! k)) ''transitionDelay''
           = Some (Seconds (times_0_1 k))
       \<and> \<bar>times_0_1 k - of_nat k / 10\<bar> \<le> of_nat k / 10 / 2 ^ 52
       \<and> (\<forall>k'. k < k' \<and> k' < length (querySelectorAll (HasClass ''project-card'') (elements p))
                 \<and> k' < 2 ^ 52 \<longrightarrow>
               querySelectorAll (HasClass ''project-card'') (elements p) ! k
                 < querySelectorAll (HasClass ''project-card'') (elements p) ! k'
               \<and> times_0_1 k < times_0_1 k')
       \<and> (\<forall>entries i. style (elements (deliver (Intersections entries) (addStaggerDelay p)) ! i)
                          = style (elements (addStaggerDelay p) ! i))
       \<and> (readyState p \<noteq> ''loading'' \<and> document_body (elements p) \<noteq> None \<longrightarrow>
             (\<forall>entries.
                style (elements (snd (init p))
                         ! (querySelectorAll (HasClass ''project-card'') (elements p) ! k)) ''transitionDelay''
                  = Some (Seconds (times_0_1 k))
                \<and> style (elements (deliver (Intersections entries) (snd (init p)))
                           ! (querySelectorAll (HasClass ''project-card'') (elements p) ! k)) ''transitionDelay''
                  = Some (Seconds (times_0_1 k))))"
proof -
  let ?cards = "\<lambda>q. querySelectorAll (HasClass ''project-card'') (elements q)"
  have a: "style (elements (addStaggerDelay q) ! (?cards q ! k)) ''transitionDelay''
      = Some (Seconds (times_0_1 k))" if "k < length (?cards q)" for q
    using that by (simp add: addStaggerDelay_nth(2) set_transitionDelay_def)
  have c: "?cards p ! k < ?cards p ! k' \<and> times_0_1 k < times_0_1 k'"
    if "k < k' \<and> k' < length (?cards p) \<and> k' < 2 ^ 52" for k'
    using that by (simp add: querySelectorAll_document_order times_0_1_strict_mono)
  have d: "style (elements (deliver (Intersections entries) q) ! i) = style (elements q ! i)"
    for entries i q
    using keeps_style_Intersections [of q entries] by (simp add: keeps_def)
  have e: "style (elements (snd (init p)) ! (?cards p ! k)) ''transitionDelay''
      = Some (Seconds (times_0_1 k))"
    if "readyState p \<noteq> ''loading'' \<and> document_body (elements p) \<noteq> None"
  proof -
    from that obtain b where b: "document_body (elements p) = Some b" by auto
    let ?p1 = "snd (checkReducedMotion p)"
    have same: "?cards ?p1 = ?cards p" by (rule checkReducedMotion_same_cards)
    have "keeps (\<lambda>e. style e ''transitionDelay'') (addStaggerDelay ?p1) (snd (init p))"
      using that b by (intro keeps_delay_after_addStaggerDelay) simp_all
    then have "style (elements (snd (init p)) ! (?cards p ! k)) ''transitionDelay''
        = style (elements (addStaggerDelay ?p1) ! (?cards p ! k)) ''transitionDelay''"
      by (simp add: keeps_def)
    also have "\<dots> = Some (Seconds (times_0_1 k))"
      using a [of ?p1] assms by (simp add: same)
    finally show ?thesis .
  qed
  show ?thesis
    using a [OF assms] times_0_1_close [of k] c d e by simp
qed

text \<open>
  On the example page the cards are the elements 2, 3, 5 and 6. The card of index 1 gets
  the double \<^verbatim>\<open>0.1\<close>, less than what the card of index 2 gets, and has it after \<^verbatim>\<open>init\<close>.
\<close>

theorem stagger_delay_by_index_witness:
  "style (elements (addStaggerDelay cards_page) ! 3) ''transitionDelay''
     = Some (Seconds (7205759403792794 / 2 ^ 56))
   \<and> times_0_1 1 < times_0_1 2
   \<and> style (elements (snd (init cards_page)) ! 3) ''transitionDelay''
     = Some (Seconds (7205759403792794 / 2 ^ 56))"
proof -
  let ?cards = "querySelectorAll (HasClass ''project-card'') (elements cards_page)"
  have k: "1 < length ?cards"
    by (simp add: cards_page_facts)
  note t = stagger_delay_by_index [OF k]
  have at: "?cards ! 1 = 3" by (simp add: cards_page_facts)
  from t have "style (elements (addStaggerDelay cards_page) ! (?cards ! 1)) ''transitionDelay''
      = Some (Seconds (times_0_1 1))"
    by blast
  then have a: "style (elements (addStaggerDelay cards_page) ! 3) ''transitionDelay''
      = Some (Seconds (7205759403792794 / 2 ^ 56))"
    unfolding at times_0_1_small(2) .
  from t have "\<forall>k'. 1 < k' \<and> k' < length ?cards \<and> k' < 2 ^ 52 \<longrightarrow>
      ?cards ! 1 < ?cards ! k' \<and> times_0_1 1 < times_0_1 k'"
    by blast
  then have "1 < (2::nat) \<and> 2 < length ?cards \<and> (2::nat) < 2 ^ 52 \<longrightarrow>
      ?cards ! 1 < ?cards ! 2 \<and> times_0_1 1 < times_0_1 2"
    by blast
  moreover have "1 < (2::nat) \<and> 2 < length ?cards \<and> (2::nat) < 2 ^ 52"
    by (simp add: cards_page_facts)
  ultimately have c: "times_0_1 1 < times_0_1 2" by blast
  from t have "readyState cards_page \<noteq> ''loading'' \<and> document_body (elements cards_page) \<noteq> None \<longrightarrow>
      style (elements (snd (init cards_page)) ! (?cards ! 1)) ''transitionDelay''
        = Some (Seconds (times_0_1 1))"
    by blast
  moreover have "readyState cards_page \<noteq> ''loading'' \<and> document_body (elements cards_page) \<noteq> None"
    by (simp add: cards_page_facts)
  ultimately have "style (elements (snd (init cards_page)) ! (?cards ! 1)) ''transitionDelay''
        = Some (Seconds (times_0_1 1))"
    by blast
  then have e: "style (elements (snd (init cards_page)) ! 3) ''transitionDelay''
      = Some (Seconds (7205759403792794 / 2 ^ 56))"
    unfolding at times_0_1_small(2) .
  from a c e show ?thesis by blast
qed

text \<open>
  Claim C9 as stated fails at index 3: the fourth card of the example page gets the
  double \<open>5404319552844596 / 2 ^ 54\<close>, printed \<^verbatim>\<open>0.30000000000000004s\<close>. That is not
  \<open>3 / 10\<close>, and not the double nearest to it either: the double just below is nearer.
\<close>

theorem stagger_delay_exact_counterexample:
  "style (elements (addStaggerDelay cards_page) ! 6) ''transitionDelay''
     = Some (Seconds (5404319552844596 / 2 ^ 54))
   \<and> (5404319552844596 / 2 ^ 54 :: rat) \<noteq> 3 / 10
   \<and> \<bar>3 / 10 - 5404319552844595 / 2 ^ 54 :: rat\<bar> < \<bar>3 / 10 - 5404319552844596 / 2 ^ 54\<bar>"
proof -
  have "elements (addStaggerDelay cards_page) ! ([2, 3, 5, 6] ! 3)
      = set_transitionDelay 3 (elements cards_page ! ([2, 3, 5, 6] ! 3))"
    using addStaggerDelay_nth(2) [of 3 cards_page] by (simp add: cards_page_facts)
  then have "style (elements (addStaggerDelay cards_page) ! 6) ''transitionDelay''
      = Some (Seconds (times_0_1 3))"
    by (simp add: set_transitionDelay_def)
  then show ?thesis by (simp add: times_0_1_at_3)
qed

end
